theory Spec2Isabelle
  imports Complex_Main "HOL-Library.AList" "HOL-Library.Char_ord" "HOL-Library.List_Lexorder"
begin

section \<open>Characters and strings of the interpreter\<close>

text \<open>
  The script \<^verbatim>\<open>scripts/compare_results.py\<close> works on Python \<^verbatim>\<open>str\<close> values, that is on
  sequences of code points. A \<^typ>\<open>char\<close> stands for one code point in the range
  U+0000 .. U+00FF (Latin-1), \<^term>\<open>of_char c\<close> being its number; a \<^typ>\<open>string\<close> is a
  Python string over that range. The character classes below are the ones of
  \<^verbatim>\<open>str.isspace\<close>, \<^verbatim>\<open>\s\<close>, \<^verbatim>\<open>\S\<close>, \<^verbatim>\<open>\d\<close>, \<^verbatim>\<open>\w\<close> and \<^verbatim>\<open>str.lower\<close> on that range.
\<close>

definition is_space :: "char \<Rightarrow> bool" where
  \<comment> \<open>\<^verbatim>\<open>\s\<close> and \<^verbatim>\<open>str.isspace\<close>: U+0009..U+000D, U+001C..U+0020, U+0085, U+00A0\<close>
  "is_space c = (let n = (of_char c :: nat) in
     (9 \<le> n \<and> n \<le> 13) \<or> (28 \<le> n \<and> n \<le> 32) \<or> n = 133 \<or> n = 160)"

definition non_space :: "char \<Rightarrow> bool" where
  \<comment> \<open>\<^verbatim>\<open>\S\<close>\<close>
  "non_space c = (\<not> is_space c)"

definition is_digit :: "char \<Rightarrow> bool" where
  \<comment> \<open>\<^verbatim>\<open>\d\<close>: the decimal digits 0..9\<close>
  "is_digit c = (let n = (of_char c :: nat) in 48 \<le> n \<and> n \<le> 57)"

definition digit_or_dot :: "char \<Rightarrow> bool" where
  \<comment> \<open>the class \<^verbatim>\<open>[\d.]\<close>\<close>
  "digit_or_dot c = (is_digit c \<or> c = CHR ''.'')"

definition is_word :: "char \<Rightarrow> bool" where
  \<comment> \<open>\<^verbatim>\<open>\w\<close>: alphanumeric code points and the underscore\<close>
  "is_word c = (let n = (of_char c :: nat) in
     (48 \<le> n \<and> n \<le> 57) \<or> (65 \<le> n \<and> n \<le> 90) \<or> n = 95 \<or> (97 \<le> n \<and> n \<le> 122) \<or>
     n = 170 \<or> n = 178 \<or> n = 179 \<or> n = 181 \<or> n = 185 \<or> n = 186 \<or>
     (188 \<le> n \<and> n \<le> 190) \<or> (192 \<le> n \<and> n \<le> 214) \<or> (216 \<le> n \<and> n \<le> 246) \<or>
     (248 \<le> n \<and> n \<le> 255))"

definition is_upper :: "char \<Rightarrow> bool" where
  \<comment> \<open>the code points that \<^verbatim>\<open>str.lower\<close> changes: A..Z, and U+00C0..U+00DE without U+00D7\<close>
  "is_upper c = (let n = (of_char c :: nat) in
     (65 \<le> n \<and> n \<le> 90) \<or> (192 \<le> n \<and> n \<le> 222 \<and> n \<noteq> 215))"

definition lower_char :: "char \<Rightarrow> char" where
  \<comment> \<open>\<^verbatim>\<open>str.lower\<close> on one code point: the lower-case letter lies 32 above the capital\<close>
  "lower_char c = (if is_upper c then char_of (of_char c + (32::nat)) else c)"

definition py_lower :: "string \<Rightarrow> string" where
  "py_lower s = map lower_char s"

definition py_strip :: "string \<Rightarrow> string" where
  \<comment> \<open>\<^verbatim>\<open>str.strip()\<close>: white space removed at both ends\<close>
  "py_strip s = rev (dropWhile is_space (rev (dropWhile is_space s)))"

definition remove_char :: "char \<Rightarrow> string \<Rightarrow> string" where
  \<comment> \<open>\<^verbatim>\<open>s.replace(c, '')\<close> for a one-character \<^verbatim>\<open>c\<close>\<close>
  "remove_char c s = filter (\<lambda>x. x \<noteq> c) s"

definition replace_char :: "char \<Rightarrow> char \<Rightarrow> string \<Rightarrow> string" where
  \<comment> \<open>\<^verbatim>\<open>s.replace(c, d)\<close> for one-character \<^verbatim>\<open>c\<close> and \<^verbatim>\<open>d\<close>\<close>
  "replace_char c d s = map (\<lambda>x. if x = c then d else x) s"

section \<open>Regular expressions with backtracking\<close>

text \<open>
  The patterns of the script use literals, anchors, character classes under \<^verbatim>\<open>+\<close>, \<^verbatim>\<open>+?\<close>
  and \<^verbatim>\<open>*\<close>, optional groups, capturing groups and one alternative. \<^verbatim>\<open>re\<close> explores
  the ways of matching in a fixed order and keeps the first that succeeds; \<open>ms\<close> gives
  all of them in that order, each as the position reached, the text that remains and
  the groups captured on the way.
\<close>

datatype regex =
    Bol                          \<comment> \<open>\<^verbatim>\<open>^\<close>\<close>
  | Eol                          \<comment> \<open>\<^verbatim>\<open>$\<close>: the end, or just before a final newline\<close>
  | Lit string                   \<comment> \<open>literal text\<close>
  | PlusG "char \<Rightarrow> bool"         \<comment> \<open>\<^verbatim>\<open>C+\<close>, longest first\<close>
  | PlusL "char \<Rightarrow> bool"         \<comment> \<open>\<^verbatim>\<open>C+?\<close>, shortest first\<close>
  | StarG "char \<Rightarrow> bool"         \<comment> \<open>\<^verbatim>\<open>C*\<close>, longest first\<close>
  | Opt regex                    \<comment> \<open>\<^verbatim>\<open>(?:r)?\<close>, \<open>r\<close> first\<close>
  | Grp nat regex                \<comment> \<open>capturing group number \<open>n\<close>\<close>
  | Seq regex regex
  | Alt regex regex              \<comment> \<open>\<^verbatim>\<open>r|s\<close>, \<open>r\<close> first\<close>

type_synonym groups = "nat \<rightharpoonup> string"
type_synonym mstate = "nat \<times> string \<times> groups"

fun ms :: "regex \<Rightarrow> mstate \<Rightarrow> mstate list" where
  "ms Bol (p, s, g) = (if p = 0 then [(p, s, g)] else [])"
| "ms Eol (p, s, g) = (if s = [] \<or> s = [CHR 0x0A] then [(p, s, g)] else [])"
| "ms (Lit l) (p, s, g) =
     (if take (length l) s = l then [(p + length l, drop (length l) s, g)] else [])"
| "ms (PlusG C) (p, s, g) =
     map (\<lambda>k. (p + k, drop k s, g)) (rev [1 ..< Suc (length (takeWhile C s))])"
| "ms (PlusL C) (p, s, g) =
     map (\<lambda>k. (p + k, drop k s, g)) [1 ..< Suc (length (takeWhile C s))]"
| "ms (StarG C) (p, s, g) =
     map (\<lambda>k. (p + k, drop k s, g)) (rev [0 ..< Suc (length (takeWhile C s))])"
| "ms (Opt r) (p, s, g) = ms r (p, s, g) @ [(p, s, g)]"
| "ms (Grp n r) (p, s, g) =
     map (\<lambda>(p', s', g'). (p', s', g'(n \<mapsto> take (p' - p) s))) (ms r (p, s, g))"
| "ms (Seq r1 r2) (p, s, g) = concat (map (ms r2) (ms r1 (p, s, g)))"
| "ms (Alt r1 r2) (p, s, g) = ms r1 (p, s, g) @ ms r2 (p, s, g)"

fun Cat :: "regex list \<Rightarrow> regex" where
  "Cat [] = Lit []"
| "Cat [r] = r"
| "Cat (r # rs) = Seq r (Cat rs)"

text \<open>A match object: where the match starts, where it ends, and its groups.\<close>

type_synonym match = "nat \<times> nat \<times> groups"

definition match_at :: "regex \<Rightarrow> string \<Rightarrow> nat \<Rightarrow> match option" where
  "match_at r s i = (case ms r (i, drop i s, Map.empty) of
       [] \<Rightarrow> None
     | (e, _, g) # _ \<Rightarrow> Some (i, e, g))"

definition re_match :: "regex \<Rightarrow> string \<Rightarrow> match option" where
  \<comment> \<open>\<^verbatim>\<open>pattern.match(s)\<close>: a match that starts at position 0\<close>
  "re_match r s = match_at r s 0"

primrec scan :: "regex \<Rightarrow> string \<Rightarrow> nat \<Rightarrow> nat \<Rightarrow> match option" where
  "scan r s i 0 = None"
| "scan r s i (Suc n) = (case match_at r s i of
       Some m \<Rightarrow> Some m
     | None \<Rightarrow> scan r s (Suc i) n)"

definition search_from :: "regex \<Rightarrow> string \<Rightarrow> nat \<Rightarrow> match option" where
  \<comment> \<open>the leftmost match that starts at one of the positions \<open>i, ..., length s\<close>\<close>
  "search_from r s i = scan r s i (Suc (length s) - i)"

definition re_search :: "regex \<Rightarrow> string \<Rightarrow> match option" where
  \<comment> \<open>\<^verbatim>\<open>pattern.search(s)\<close>\<close>
  "re_search r s = search_from r s 0"

definition group :: "match \<Rightarrow> nat \<Rightarrow> string option" where
  \<comment> \<open>\<^verbatim>\<open>m.group(n)\<close>; \<open>None\<close> for a group that took no part in the match\<close>
  "group m n = snd (snd m) n"

lemma scan_start: "scan r s i n = Some (b, e, g) \<Longrightarrow> i \<le> b \<and> b < i + n"
proof (induction n arbitrary: i)
  case 0
  then show ?case by simp
next
  case (Suc n)
  show ?case
  proof (cases "match_at r s i")
    case None
    with Suc.prems have "scan r s (Suc i) n = Some (b, e, g)" by simp
    from Suc.IH [OF this] show ?thesis by simp
  next
    case (Some m)
    with Suc.prems have "m = (b, e, g)" by simp
    with Some have "b = i"
      by (auto simp: match_at_def split: list.splits)
    then show ?thesis by simp
  qed
qed

lemma search_from_start:
  "search_from r s i = Some (b, e, g) \<Longrightarrow> i \<le> b \<and> b \<le> length s"
  by (auto simp: search_from_def dest!: scan_start)

text \<open>
  \<^verbatim>\<open>re.sub(pattern, '', s)\<close>: every match, found from left to right in the same string, is
  cut out. After an empty match the scan moves on by one character.
\<close>

function sub_from :: "regex \<Rightarrow> string \<Rightarrow> nat \<Rightarrow> string" where
  "sub_from r s i = (case search_from r s i of
       None \<Rightarrow> drop i s
     | Some (b, e, g) \<Rightarrow> take (b - i) (drop i s) @
         (if b < e then sub_from r s e
          else if b < length s then s ! b # sub_from r s (Suc b)
          else []))"
  by pat_completeness auto
termination
proof (relation "measure (\<lambda>(r, s, i). Suc (length s) - i)")
  show "wf (measure (\<lambda>(r, s, i). Suc (length s) - i))" by simp
next
  fix r s i x2 b y e g
  assume "search_from r s i = Some x2" "(b, y) = x2" "(e, g) = y" "b < e"
  then have "search_from r s i = Some (b, e, g)" by simp
  from search_from_start [OF this] \<open>b < e\<close>
  have "i < e" "i \<le> length s" by simp_all
  then show "((r, s, e), (r, s, i)) \<in> measure (\<lambda>(r, s, i). Suc (length s) - i)"
    by simp
next
  fix r s i x2 b y e g
  assume "search_from r s i = Some x2" "(b, y) = x2" "(e, g) = y" "\<not> b < e" "b < length s"
  then have "search_from r s i = Some (b, e, g)" by simp
  from search_from_start [OF this] \<open>b < length s\<close>
  have "i \<le> b" by simp
  with \<open>b < length s\<close>
  show "((r, s, Suc b), (r, s, i)) \<in> measure (\<lambda>(r, s, i). Suc (length s) - i)"
    by simp
qed

declare sub_from.simps [simp del]

definition re_sub :: "regex \<Rightarrow> string \<Rightarrow> string" where
  "re_sub r s = sub_from r s 0"

section \<open>Name normalisation\<close>

definition normalize_name :: "string \<Rightarrow> string" where
  "normalize_name name0 =
     (let name1 = re_sub (Seq Bol (Lit ''Benchmark'')) name0;
          name2 = re_sub (Seq Bol (Lit ''bench_'')) name1;
          name3 = py_lower (remove_char CHR ''/'' (remove_char CHR ''_'' name2));
          name4 = re_sub (Cat [Lit ''-'', PlusG is_digit, Eol]) name3
      in name4)"

section \<open>Numbers read from text\<close>

text \<open>
  A Python \<^verbatim>\<open>float\<close> is modelled by the real number it stands for: rounding to a double,
  overflow to infinity and NaN are not modelled. The only strings the parsers hand to
  \<^verbatim>\<open>float\<close> are captures of \<^verbatim>\<open>[\d.]+\<close>, and the only ones handed to \<^verbatim>\<open>int\<close> are captures
  of \<^verbatim>\<open>\d+\<close>; \<open>py_float\<close> and \<open>py_int\<close> are Python's functions on strings of digits and
  dots (the interpreter's optional limit on the number of digits of an \<^verbatim>\<open>int\<close> literal
  is not modelled). A group that took no part in a match is \<^verbatim>\<open>None\<close>, on which \<^verbatim>\<open>float\<close>
  raises \<^verbatim>\<open>TypeError\<close> and a method call raises \<^verbatim>\<open>AttributeError\<close>.
\<close>

datatype error = ValueError | TypeError | AttributeError

definition digit_val :: "char \<Rightarrow> nat" where
  "digit_val c = of_char c - 48"

definition digits_val :: "string \<Rightarrow> nat" where
  "digits_val s = foldl (\<lambda>a c. 10 * a + digit_val c) 0 s"

definition py_float :: "string \<Rightarrow> error + real" where
  "py_float s =
     (let ip = takeWhile is_digit s; r = dropWhile is_digit s
      in case r of
           [] \<Rightarrow> if ip = [] then Inl ValueError else Inr (real (digits_val ip))
         | c # fp \<Rightarrow>
             if c = CHR ''.'' \<and> list_all is_digit fp \<and> \<not> (ip = [] \<and> fp = [])
             then Inr (real (digits_val ip) + real (digits_val fp) / 10 ^ length fp)
             else Inl ValueError)"

definition py_int :: "string \<Rightarrow> error + int" where
  "py_int s = (if s \<noteq> [] \<and> list_all is_digit s then Inr (int (digits_val s))
               else Inl ValueError)"

definition truthy :: "string option \<Rightarrow> bool" where
  \<comment> \<open>the truth value of a string or \<^verbatim>\<open>None\<close>\<close>
  "truthy a = (case a of None \<Rightarrow> False | Some x \<Rightarrow> x \<noteq> [])"

definition py_or :: "string option \<Rightarrow> string option \<Rightarrow> string option" where
  \<comment> \<open>\<^verbatim>\<open>a or b\<close>\<close>
  "py_or a b = (if truthy a then a else b)"

section \<open>Benchmark results and dictionaries\<close>

record BenchResult =
  name :: string
  ns_per_op :: real
  bytes_per_op :: "int option"
  allocs_per_op :: "int option"
  source :: string

text \<open>
  A \<^verbatim>\<open>dict\<close> with string keys is an association list in insertion order; a lookup
  takes the first binding of a key, and an assignment replaces the binding of a key in
  place or appends a new one.
\<close>

type_synonym 'v dict = "(string \<times> 'v) list"

definition dict_get :: "'v dict \<Rightarrow> string \<Rightarrow> 'v option" where
  "dict_get d k = map_of d k"

definition dict_set :: "string \<Rightarrow> 'v \<Rightarrow> 'v dict \<Rightarrow> 'v dict" where
  "dict_set k v d = AList.update k v d"

definition dict_keys :: "'v dict \<Rightarrow> string set" where
  "dict_keys d = set (map fst d)"

section \<open>Parsing the output of the Go benchmarks\<close>

definition go_pattern :: regex where
  "go_pattern = Cat
     [Bol, Lit ''Benchmark'', Grp 1 (PlusL non_space), Opt (Seq (Lit ''-'') (PlusG is_digit)),
      PlusG is_space,
      Grp 2 (PlusG is_digit), PlusG is_space,
      Grp 3 (PlusG digit_or_dot), PlusG is_space, Lit ''ns/op'',
      Opt (Cat [PlusG is_space, Grp 4 (PlusG is_digit), PlusG is_space, Lit ''B/op'']),
      Opt (Cat [PlusG is_space, Grp 5 (PlusG is_digit), PlusG is_space, Lit ''allocs/op''])]"

definition opt_int :: "string option \<Rightarrow> error + int option" where
  \<comment> \<open>\<^verbatim>\<open>int(x) if x else None\<close>\<close>
  "opt_int x = (case x of
       None \<Rightarrow> Inr None
     | Some t \<Rightarrow> if t = [] then Inr None
                else (case py_int t of Inl e \<Rightarrow> Inl e | Inr n \<Rightarrow> Inr (Some n)))"

definition go_line :: "string \<Rightarrow> BenchResult dict \<Rightarrow> error + BenchResult dict" where
  \<comment> \<open>the body of the loop of \<^verbatim>\<open>parse_go_bench\<close>\<close>
  "go_line line results =
     (case re_match go_pattern (py_strip line) of
        None \<Rightarrow> Inr results
      | Some m \<Rightarrow>
         (case group m 3 of
            None \<Rightarrow> Inl TypeError
          | Some t \<Rightarrow>
             (case py_float t of
                Inl e \<Rightarrow> Inl e
              | Inr ns \<Rightarrow>
                 (case opt_int (group m 4) of
                    Inl e \<Rightarrow> Inl e
                  | Inr bytes_op \<Rightarrow>
                     (case opt_int (group m 5) of
                        Inl e \<Rightarrow> Inl e
                      | Inr allocs_op \<Rightarrow>
                         (case group m 1 of
                            None \<Rightarrow> Inl TypeError
                          | Some nm \<Rightarrow>
                             Inr (dict_set (normalize_name nm)
                                   \<lparr>name = ''Benchmark'' @ nm, ns_per_op = ns,
                                    bytes_per_op = bytes_op, allocs_per_op = allocs_op,
                                    source = ''go''\<rparr> results)))))))"

fun go_lines :: "string list \<Rightarrow> BenchResult dict \<Rightarrow> error + BenchResult dict" where
  "go_lines [] results = Inr results"
| "go_lines (line # rest) results =
     (case go_line line results of Inl e \<Rightarrow> Inl e | Inr results' \<Rightarrow> go_lines rest results')"

definition parse_go_bench :: "string list \<Rightarrow> error + BenchResult dict" where
  \<comment> \<open>the argument is the list of the lines of the file\<close>
  "parse_go_bench file = go_lines file []"

section \<open>Parsing the output of the Rust benchmarks\<close>

definition convert_to_ns :: "real \<Rightarrow> string \<Rightarrow> real" where
  "convert_to_ns val unit0 =
     (let unit = py_lower unit0
      in if unit \<in> set [''ns'', ''nanoseconds''] then val
         else if unit \<in> set [[CHR 0xB5, CHR ''s''], ''us'', ''microseconds''] then val * 1000
         else if unit \<in> set [''ms'', ''milliseconds''] then val * 1000000
         else if unit \<in> set [''s'', ''seconds''] then val * 1000000000
         else val)"

definition name_pattern :: regex where
  "name_pattern = Alt
     (Cat [Bol, Grp 1 (Cat [PlusG non_space, Lit ''/'', PlusG non_space]), StarG is_space, Eol])
     (Cat [Bol, Grp 2 (PlusG non_space), PlusG is_space, Lit ''time:''])"

definition time_pattern :: regex where
  "time_pattern = Cat
     [Lit ''time:'', PlusG is_space, Lit ''['',
      Grp 1 (PlusG digit_or_dot), PlusG is_space, Grp 2 (PlusG is_word), PlusG is_space,
      Grp 3 (PlusG digit_or_dot), PlusG is_space, Grp 4 (PlusG is_word), PlusG is_space,
      Grp 5 (PlusG digit_or_dot), PlusG is_space, Grp 6 (PlusG is_word), Lit '']'']"

definition simple_pattern :: regex where
  "simple_pattern = Cat
     [Bol, Grp 1 (PlusG non_space), PlusG is_space, Lit ''time:'', PlusG is_space, Lit ''['',
      Grp 2 (PlusG digit_or_dot), PlusG is_space, Grp 3 (PlusG is_word)]"

definition rust_result :: "string option \<Rightarrow> string option \<Rightarrow> string option \<Rightarrow>
    BenchResult dict \<Rightarrow> error + BenchResult dict" where
  \<comment> \<open>\<^verbatim>\<open>results[normalize_name(nm)] = BenchResult(nm, convert_to_ns(float(v), unit), "rust")\<close>\<close>
  "rust_result nm v unit results =
     (case v of
        None \<Rightarrow> Inl TypeError
      | Some t \<Rightarrow>
         (case py_float t of
            Inl e \<Rightarrow> Inl e
          | Inr x \<Rightarrow>
             (case unit of
                None \<Rightarrow> Inl AttributeError
              | Some u \<Rightarrow>
                 (case nm of
                    None \<Rightarrow> Inl TypeError
                  | Some n \<Rightarrow>
                     Inr (dict_set (normalize_name n)
                           \<lparr>name = n, ns_per_op = convert_to_ns x u,
                            bytes_per_op = None, allocs_per_op = None,
                            source = ''rust''\<rparr> results)))))"

definition name_step :: "string \<Rightarrow> string option \<Rightarrow> string option" where
  \<comment> \<open>the pending name after the name pattern was tried on the stripped line\<close>
  "name_step line current_name =
     (case re_match name_pattern line of
        None \<Rightarrow> current_name
      | Some m \<Rightarrow>
         (let cn = py_or (group m 1) (group m 2)
          in if truthy cn then map_option (replace_char CHR ''/'' CHR ''_'') cn else cn))"

definition time_step :: "string \<Rightarrow> string option \<times> BenchResult dict \<Rightarrow>
    error + string option \<times> BenchResult dict" where
  \<comment> \<open>the interval pattern, searched in the stripped line\<close>
  "time_step line st =
     (case st of (current_name, results) \<Rightarrow>
       (case re_search time_pattern line of
          None \<Rightarrow> Inr (current_name, results)
        | Some m \<Rightarrow>
           if truthy current_name
           then (case rust_result current_name (group m 3) (group m 4) results of
                   Inl e \<Rightarrow> Inl e
                 | Inr results' \<Rightarrow> Inr (None, results'))
           else Inr (current_name, results)))"

definition simple_step :: "string \<Rightarrow> string option \<times> BenchResult dict \<Rightarrow>
    error + string option \<times> BenchResult dict" where
  \<comment> \<open>the simpler one-line format\<close>
  "simple_step line st =
     (case st of (current_name, results) \<Rightarrow>
       (case re_match simple_pattern line of
          None \<Rightarrow> Inr (current_name, results)
        | Some m \<Rightarrow>
           (case rust_result (group m 1) (group m 2) (group m 3) results of
              Inl e \<Rightarrow> Inl e
            | Inr results' \<Rightarrow> Inr (current_name, results'))))"

definition rust_line :: "string \<Rightarrow> string option \<times> BenchResult dict \<Rightarrow>
    error + string option \<times> BenchResult dict" where
  \<comment> \<open>the body of the loop of \<^verbatim>\<open>parse_rust_bench\<close>\<close>
  "rust_line line0 st =
     (let line = py_strip line0
      in case time_step line (name_step line (fst st), snd st) of
           Inl e \<Rightarrow> Inl e
         | Inr st' \<Rightarrow> simple_step line st')"

fun rust_lines :: "string list \<Rightarrow> string option \<times> BenchResult dict \<Rightarrow>
    error + string option \<times> BenchResult dict" where
  "rust_lines [] st = Inr st"
| "rust_lines (line # rest) st =
     (case rust_line line st of Inl e \<Rightarrow> Inl e | Inr st' \<Rightarrow> rust_lines rest st')"

definition parse_rust_bench :: "string list \<Rightarrow> error + BenchResult dict" where
  "parse_rust_bench file =
     (case rust_lines file (None, []) of Inl e \<Rightarrow> Inl e | Inr st \<Rightarrow> Inr (snd st))"

section \<open>Comparing the two sets of results\<close>

record comparison =
  normalized_name :: string
  go_name :: "string option"
  rust_name :: "string option"
  go_ns :: "real option"
  rust_ns :: "real option"
  ratio :: "real option"
  status :: string

definition classify :: "real \<Rightarrow> string" where
  "classify r = (if r \<le> 1 then ''excellent''
                 else if r \<le> 2 then ''good''
                 else if r \<le> 5 then ''acceptable''
                 else ''needs_work'')"

definition compare_one :: "BenchResult dict \<Rightarrow> BenchResult dict \<Rightarrow> string \<Rightarrow> comparison" where
  \<comment> \<open>the body of the loop of \<^verbatim>\<open>compare_results\<close>\<close>
  "compare_one go_results rust_results norm_name =
     (let go_res = dict_get go_results norm_name;
          rust_res = dict_get rust_results norm_name;
          comparison = \<lparr>normalized_name = norm_name,
                        go_name = map_option name go_res,
                        rust_name = map_option name rust_res,
                        go_ns = map_option ns_per_op go_res,
                        rust_ns = map_option ns_per_op rust_res,
                        ratio = None,
                        status = ''missing_both''\<rparr>
      in case (go_res, rust_res) of
           (Some g, Some r) \<Rightarrow>
             if ns_per_op g > 0
             then comparison\<lparr>ratio := Some (ns_per_op r / ns_per_op g),
                              status := classify (ns_per_op r / ns_per_op g)\<rparr>
             else comparison
         | (Some g, None) \<Rightarrow> comparison\<lparr>status := ''missing_rust''\<rparr>
         | (None, Some r) \<Rightarrow> comparison\<lparr>status := ''missing_go''\<rparr>
         | (None, None) \<Rightarrow> comparison)"

definition compare_results :: "BenchResult dict \<Rightarrow> BenchResult dict \<Rightarrow> comparison list" where
  "compare_results go_results rust_results =
     map (compare_one go_results rust_results)
       (sorted_list_of_set (dict_keys go_results \<union> dict_keys rust_results))"

definition main_comparisons :: "string list \<Rightarrow> string list \<Rightarrow> error + comparison list" where
  \<comment> \<open>\<^verbatim>\<open>main\<close> up to the list of comparisons, from the lines of the two files\<close>
  "main_comparisons go_file rust_file =
     (case parse_go_bench go_file of
        Inl e \<Rightarrow> Inl e
      | Inr go_results \<Rightarrow>
         (case parse_rust_bench rust_file of
            Inl e \<Rightarrow> Inl e
          | Inr rust_results \<Rightarrow> Inr (compare_results go_results rust_results)))"

section \<open>The summary of the table\<close>

text \<open>
  \<^verbatim>\<open>print_table\<close> prints one line per comparison and counts on the way; the three
  counters after the loop are what the summary block shows. The width of the name
  column is a \<^verbatim>\<open>max\<close> over the comparisons, which raises \<^verbatim>\<open>ValueError\<close> when there is
  none. The text of the lines is not modelled.
\<close>

record counters =
  matched_count :: nat
  excellent_count :: nat
  good_count :: nat

definition count_one :: "comparison \<Rightarrow> counters \<Rightarrow> counters" where
  "count_one c cs =
     (if ratio c \<noteq> None
      then (let cs1 = cs\<lparr>matched_count := matched_count cs + 1\<rparr>
            in if status c = ''excellent''
               then cs1\<lparr>excellent_count := excellent_count cs1 + 1\<rparr>
               else if status c \<in> set [''excellent'', ''good'']
               then cs1\<lparr>good_count := good_count cs1 + 1\<rparr>
               else cs1)
      else cs)"

fun count_all :: "comparison list \<Rightarrow> counters \<Rightarrow> counters" where
  "count_all [] cs = cs"
| "count_all (c # rest) cs = count_all rest (count_one c cs)"

definition print_table :: "comparison list \<Rightarrow> error + counters" where
  "print_table comparisons =
     (if comparisons = [] then Inl ValueError
      else Inr (count_all comparisons
                 \<lparr>matched_count = 0, excellent_count = 0, good_count = 0\<rparr>))"

definition json_good :: "comparison list \<Rightarrow> nat" where
  \<comment> \<open>the entry \<^verbatim>\<open>'good'\<close> of the summary that \<^verbatim>\<open>main\<close> writes with \<^verbatim>\<open>--json\<close>\<close>
  "json_good comparisons =
     length (filter (\<lambda>c. status c \<in> set [''excellent'', ''good'']) comparisons)"

section \<open>Notions used in the statements\<close>

definition first_token :: "string \<Rightarrow> string" where
  \<comment> \<open>the text of a line up to its first white space, once the line is stripped\<close>
  "first_token line = takeWhile non_space (py_strip line)"

definition dash_digits_suffix :: "string \<Rightarrow> bool" where
  \<comment> \<open>a dash followed by one digit or more\<close>
  "dash_digits_suffix suf =
     (case suf of [] \<Rightarrow> False | c # ds \<Rightarrow> c = CHR ''-'' \<and> ds \<noteq> [] \<and> list_all is_digit ds)"

text \<open>Whether a match was found, and the group numbers that occur in a pattern.\<close>

fun matched :: "match option \<Rightarrow> bool" where
  "matched None = False"
| "matched (Some m) = True"

fun grps :: "regex \<Rightarrow> nat set" where
  "grps (Opt r) = grps r"
| "grps (Grp n r) = insert n (grps r)"
| "grps (Seq r1 r2) = grps r1 \<union> grps r2"
| "grps (Alt r1 r2) = grps r1 \<union> grps r2"
| "grps _ = {}"

section \<open>Properties of the comparison\<close>

lemma finite_dict_keys: "finite (dict_keys d)"
  by (simp add: dict_keys_def)

lemma dict_get_in_keys: "dict_get d k = Some v \<Longrightarrow> k \<in> dict_keys d"
  unfolding dict_get_def dict_keys_def by (metis map_of_eq_None_iff option.distinct(1) set_map)

lemma normalized_name_compare_one:
  "normalized_name (compare_one go_results rust_results k) = k"
  by (simp add: compare_one_def Let_def split: option.splits)

lemma names_compare_results:
  "map normalized_name (compare_results go_results rust_results) =
     sorted_list_of_set (dict_keys go_results \<union> dict_keys rust_results)"
  by (simp add: compare_results_def normalized_name_compare_one comp_def)

lemma set_compare_results:
  "set (compare_results go_results rust_results) =
     compare_one go_results rust_results ` (dict_keys go_results \<union> dict_keys rust_results)"
  by (simp add: compare_results_def finite_dict_keys)

lemma row_of_key:
  assumes "row \<in> set (compare_results go_results rust_results)" "normalized_name row = k"
  shows "row = compare_one go_results rust_results k"
  using assms by (auto simp: set_compare_results normalized_name_compare_one)

lemma key_has_row:
  assumes "k \<in> dict_keys go_results \<union> dict_keys rust_results"
  shows "\<exists>row \<in> set (compare_results go_results rust_results). normalized_name row = k"
  using assms unfolding set_compare_results
  by (auto simp: normalized_name_compare_one)



text \<open>
  Claim C5. For a normalized name that both dictionaries hold and whose Go record has an
  \<open>ns_per_op\<close> that is zero or negative, the row of that name has no ratio, keeps the
  initial status \<open>missing_both\<close>, and carries the names and times of both records.
\<close>

theorem compare_results_nonpositive_baseline:
  assumes "dict_get go_results k = Some g" and "dict_get rust_results k = Some r"
    and "ns_per_op g \<le> 0"
  shows "(\<exists>row \<in> set (compare_results go_results rust_results). normalized_name row = k) \<and>
         (\<forall>row \<in> set (compare_results go_results rust_results). normalized_name row = k \<longrightarrow>
            ratio row = None \<and> status row = ''missing_both'' \<and>
            go_name row = Some (name g) \<and> go_ns row = Some (ns_per_op g) \<and>
            rust_name row = Some (name r) \<and> rust_ns row = Some (ns_per_op r))"
proof (intro conjI ballI impI)
  from assms(1) have "k \<in> dict_keys go_results \<union> dict_keys rust_results"
    by (simp add: dict_get_in_keys)
  then show "\<exists>row \<in> set (compare_results go_results rust_results). normalized_name row = k"
    by (rule key_has_row)
next
  fix row
  assume "row \<in> set (compare_results go_results rust_results)" "normalized_name row = k"
  then have row: "row = compare_one go_results rust_results k" by (rule row_of_key)
  from assms show "ratio row = None" "status row = ''missing_both''"
    "go_name row = Some (name g)" "go_ns row = Some (ns_per_op g)"
    "rust_name row = Some (name r)" "rust_ns row = Some (ns_per_op r)"
    by (simp_all add: row compare_one_def)
qed

text \<open>A Go time of 0 ns against a Rust time of 4 ns.\<close>

theorem compare_results_nonpositive_baseline_witness:
  "dict_get [(''a'', \<lparr>name = ''BenchmarkA'', ns_per_op = 0, bytes_per_op = None,
       allocs_per_op = None, source = ''go''\<rparr>)] ''a'' =
     Some \<lparr>name = ''BenchmarkA'', ns_per_op = 0, bytes_per_op = None,
       allocs_per_op = None, source = ''go''\<rparr> \<and>
   dict_get [(''a'', \<lparr>name = ''a'', ns_per_op = 4, bytes_per_op = None,
       allocs_per_op = None, source = ''rust''\<rparr>)] ''a'' =
     Some \<lparr>name = ''a'', ns_per_op = 4, bytes_per_op = None,
       allocs_per_op = None, source = ''rust''\<rparr> \<and>
   (0::real) \<le> 0 \<and>
   (\<exists>row. row \<in> set (compare_results
        [(''a'', \<lparr>name = ''BenchmarkA'', ns_per_op = 0, bytes_per_op = None,
           allocs_per_op = None, source = ''go''\<rparr>)]
        [(''a'', \<lparr>name = ''a'', ns_per_op = 4, bytes_per_op = None,
           allocs_per_op = None, source = ''rust''\<rparr>)]) \<and>
      normalized_name row = ''a'' \<and>
        ratio row = None \<and> status row = ''missing_both'' \<and>
        go_name row = Some ''BenchmarkA'' \<and> go_ns row = Some 0 \<and>
        rust_name row = Some ''a'' \<and> rust_ns row = Some 4)"
  using compare_results_nonpositive_baseline
    [of "[(''a'', \<lparr>name = ''BenchmarkA'', ns_per_op = 0, bytes_per_op = None,
           allocs_per_op = None, source = ''go''\<rparr>)]" "''a''"
        "\<lparr>name = ''BenchmarkA'', ns_per_op = 0, bytes_per_op = None,
           allocs_per_op = None, source = ''go''\<rparr>"
        "[(''a'', \<lparr>name = ''a'', ns_per_op = 4, bytes_per_op = None,
           allocs_per_op = None, source = ''rust''\<rparr>)]"
        "\<lparr>name = ''a'', ns_per_op = 4, bytes_per_op = None,
           allocs_per_op = None, source = ''rust''\<rparr>"]
  by (auto simp: dict_get_def)

text \<open>
  Claim C2. The normalized names of the rows of \<open>compare_results\<close> are the keys of the
  union of the two dictionaries, each once, in strictly ascending order of the strings
  (code point by code point, a proper prefix first); so the number of rows is the size
  of the union.
\<close>

theorem compare_results_rows:
  "map normalized_name (compare_results go_results rust_results) =
     sorted_list_of_set (dict_keys go_results \<union> dict_keys rust_results) \<and>
   set (map normalized_name (compare_results go_results rust_results)) =
     dict_keys go_results \<union> dict_keys rust_results \<and>
   distinct (map normalized_name (compare_results go_results rust_results)) \<and>
   length (compare_results go_results rust_results) =
     card (dict_keys go_results \<union> dict_keys rust_results) \<and>
   sorted_wrt (<) (map normalized_name (compare_results go_results rust_results))"
proof -
  have fin: "finite (dict_keys go_results \<union> dict_keys rust_results)"
    by (simp add: finite_dict_keys)
  have "length (compare_results go_results rust_results) =
      length (map normalized_name (compare_results go_results rust_results))" by simp
  also have "\<dots> = card (dict_keys go_results \<union> dict_keys rust_results)"
    unfolding names_compare_results by simp
  finally show ?thesis
    using fin by (simp add: names_compare_results)
qed

section \<open>Properties of the unit conversion\<close>




section \<open>Properties of the summary\<close>

lemma count_all_matched:
  "matched_count (count_all rows cs) =
     matched_count cs + length (filter (\<lambda>c. ratio c \<noteq> None) rows)"
  by (induction rows arbitrary: cs) (simp_all add: count_one_def Let_def)

lemma count_all_excellent:
  "excellent_count (count_all rows cs) =
     excellent_count cs + length (filter (\<lambda>c. ratio c \<noteq> None \<and> status c = ''excellent'') rows)"
  by (induction rows arbitrary: cs) (simp_all add: count_one_def Let_def)

lemma count_all_good:
  "good_count (count_all rows cs) =
     good_count cs + length (filter (\<lambda>c. ratio c \<noteq> None \<and> status c = ''good'') rows)"
  by (induction rows arbitrary: cs) (auto simp: count_one_def Let_def)

text \<open>
  Claim C9. The claim wants the count shown as \<open>Good\<close> to include the rows of status
  \<open>excellent\<close>. In \<open>print_table\<close> the test for \<open>excellent\<close> or \<open>good\<close> is the \<open>elif\<close> of the
  test for \<open>excellent\<close>, so a row of status \<open>excellent\<close> never reaches it
  (\<open>count_all_good\<close>: the counter counts the matched rows of status \<open>good\<close> only). For one
  benchmark with a Go time of 2 ns and a Rust time of 1 ns the only row is \<open>excellent\<close>;
  the table counts one matched, one excellent and no good row, where the summary
  written with \<^verbatim>\<open>--json\<close> counts one.
\<close>

theorem print_table_good_count:
  "print_table (compare_results
      [(''a'', \<lparr>name = ''BenchmarkA'', ns_per_op = 2, bytes_per_op = None,
          allocs_per_op = None, source = ''go''\<rparr>)]
      [(''a'', \<lparr>name = ''a'', ns_per_op = 1, bytes_per_op = None,
          allocs_per_op = None, source = ''rust''\<rparr>)]) =
     Inr \<lparr>matched_count = 1, excellent_count = 1, good_count = 0\<rparr> \<and>
   map status (compare_results
      [(''a'', \<lparr>name = ''BenchmarkA'', ns_per_op = 2, bytes_per_op = None,
          allocs_per_op = None, source = ''go''\<rparr>)]
      [(''a'', \<lparr>name = ''a'', ns_per_op = 1, bytes_per_op = None,
          allocs_per_op = None, source = ''rust''\<rparr>)]) = [''excellent''] \<and>
   json_good (compare_results
      [(''a'', \<lparr>name = ''BenchmarkA'', ns_per_op = 2, bytes_per_op = None,
          allocs_per_op = None, source = ''go''\<rparr>)]
      [(''a'', \<lparr>name = ''a'', ns_per_op = 1, bytes_per_op = None,
          allocs_per_op = None, source = ''rust''\<rparr>)]) = 1"
  by code_simp

section \<open>Runs of the whole comparison\<close>

lemma scenario_render_foo:
  "main_comparisons
     [''BenchmarkFoo-8    1000000    123.0 ns/op    16 B/op    1 allocs/op'']
     [''render_foo time: [246.0 ns 246.0 ns 246.0 ns]''] =
   Inr [\<lparr>normalized_name = ''foo'', go_name = Some ''BenchmarkFoo'', rust_name = None,
         go_ns = Some 123, rust_ns = None, ratio = None, status = ''missing_rust''\<rparr>,
        \<lparr>normalized_name = ''renderfoo'', go_name = None, rust_name = Some ''render_foo'',
         go_ns = None, rust_ns = Some 246, ratio = None, status = ''missing_go''\<rparr>]"
  by code_simp

lemma scenario_foo:
  "main_comparisons
     [''BenchmarkFoo-8    1000000    123.0 ns/op    16 B/op    1 allocs/op'']
     [''foo time: [246.0 ns 246.0 ns 246.0 ns]''] =
   Inr [\<lparr>normalized_name = ''foo'', go_name = Some ''BenchmarkFoo'', rust_name = Some ''foo'',
         go_ns = Some 123, rust_ns = Some 246, ratio = Some 2, status = ''good''\<rparr>]"
  by code_simp

text \<open>
  Claim C7, as stated, fails: the key of \<^verbatim>\<open>BenchmarkFoo-8\<close> is \<open>foo\<close> and the key of
  \<^verbatim>\<open>render_foo\<close> is \<open>renderfoo\<close>, so the two lines do not meet in one row.
\<close>

theorem scenario_render_foo_counterexample:
  "\<not> (\<exists>row. main_comparisons
         [''BenchmarkFoo-8    1000000    123.0 ns/op    16 B/op    1 allocs/op'']
         [''render_foo time: [246.0 ns 246.0 ns 246.0 ns]''] = Inr [row] \<and>
       ratio row = Some 2 \<and> status row = ''good'')"
  by (simp add: scenario_render_foo)

text \<open>
  Claim C7, amended. For the two lines of the scenario the comparison has two rows,
  \<open>foo\<close> with status \<open>missing_rust\<close> and \<open>renderfoo\<close> with status \<open>missing_go\<close>, both
  without a ratio; with the Rust line \<^verbatim>\<open>foo time: [246.0 ns 246.0 ns 246.0 ns]\<close> it has
  exactly one row, matched, with ratio 2 and status \<open>good\<close>.
\<close>

theorem scenario_rows:
  "main_comparisons
     [''BenchmarkFoo-8    1000000    123.0 ns/op    16 B/op    1 allocs/op'']
     [''render_foo time: [246.0 ns 246.0 ns 246.0 ns]''] =
   Inr [\<lparr>normalized_name = ''foo'', go_name = Some ''BenchmarkFoo'', rust_name = None,
         go_ns = Some 123, rust_ns = None, ratio = None, status = ''missing_rust''\<rparr>,
        \<lparr>normalized_name = ''renderfoo'', go_name = None, rust_name = Some ''render_foo'',
         go_ns = None, rust_ns = Some 246, ratio = None, status = ''missing_go''\<rparr>] \<and>
   main_comparisons
     [''BenchmarkFoo-8    1000000    123.0 ns/op    16 B/op    1 allocs/op'']
     [''foo time: [246.0 ns 246.0 ns 246.0 ns]''] =
   Inr [\<lparr>normalized_name = ''foo'', go_name = Some ''BenchmarkFoo'', rust_name = Some ''foo'',
         go_ns = Some 123, rust_ns = Some 246, ratio = Some 2, status = ''good''\<rparr>]"
  by (simp add: scenario_render_foo scenario_foo)

section \<open>Properties of the Go parser\<close>

text \<open>
  Claim C4. The claim wants \<open>parse_go_bench\<close> never to raise. The time field of the
  pattern is \<^verbatim>\<open>[\d.]+\<close>, which also matches texts that are no number, and \<^verbatim>\<open>float\<close> raises
  \<^verbatim>\<open>ValueError\<close> on them: the line below matches the pattern and stops the parser.
\<close>

theorem parse_go_bench_raises:
  "parse_go_bench [''BenchmarkX 1 1.2.3 ns/op''] = Inl ValueError"
  by code_simp

section \<open>Properties of matching and substitution\<close>

lemma ms_sound:
  "(p', s', g') \<in> set (ms r (p, s, g)) \<Longrightarrow> p \<le> p' \<and> s' = drop (p' - p) s \<and> p' - p \<le> length s"
proof (induction r arbitrary: p s g p' s' g')
  case (Lit l)
  then have eq: "take (length l) s = l" and p': "p' = p + length l" and s': "s' = drop (length l) s"
    by (auto split: if_splits)
  from eq have "length (take (length l) s) = length l" by simp
  then have "length l \<le> length s" by (simp add: min_def split: if_splits)
  with p' s' show ?case by simp
next
  case (PlusG C)
  then obtain k where "k \<le> length (takeWhile C s)" "p' = p + k" "s' = drop k s" by auto
  moreover have "length (takeWhile C s) \<le> length s" by (rule length_takeWhile_le)
  ultimately show ?case by simp
next
  case (PlusL C)
  then obtain k where "k \<le> length (takeWhile C s)" "p' = p + k" "s' = drop k s" by auto
  moreover have "length (takeWhile C s) \<le> length s" by (rule length_takeWhile_le)
  ultimately show ?case by simp
next
  case (StarG C)
  then obtain k where "k \<le> length (takeWhile C s)" "p' = p + k" "s' = drop k s" by auto
  moreover have "length (takeWhile C s) \<le> length s" by (rule length_takeWhile_le)
  ultimately show ?case by simp
next
  case (Seq r1 r2)
  from Seq.prems obtain p1 s1 g1 where
    m1: "(p1, s1, g1) \<in> set (ms r1 (p, s, g))" and m2: "(p', s', g') \<in> set (ms r2 (p1, s1, g1))"
    by auto
  from Seq.IH(1) [OF m1] have a: "p \<le> p1" "s1 = drop (p1 - p) s" "p1 - p \<le> length s" by auto
  from Seq.IH(2) [OF m2] have b: "p1 \<le> p'" "s' = drop (p' - p1) s1" "p' - p1 \<le> length s1"
    by auto
  from a b show ?case by (simp add: add.commute)
qed (auto split: if_splits)

lemma match_at_bounds:
  assumes "match_at r s i = Some (b, e, g)"
  shows "b = i \<and> i \<le> e \<and> e - i \<le> length s - i"
proof -
  from assms obtain s' rest where ms: "ms r (i, drop i s, Map.empty) = (e, s', g) # rest"
    and b: "b = i"
    by (auto simp: match_at_def split: list.splits)
  then have "(e, s', g) \<in> set (ms r (i, drop i s, Map.empty))" by simp
  from ms_sound [OF this] b show ?thesis by simp
qed

lemma scan_match:
  "scan r s i n = Some (b, e, g) \<Longrightarrow> match_at r s b = Some (b, e, g)"
proof (induction n arbitrary: i)
  case 0
  then show ?case by simp
next
  case (Suc n)
  show ?case
  proof (cases "match_at r s i")
    case None
    with Suc show ?thesis by simp
  next
    case (Some m)
    with Suc.prems have m: "m = (b, e, g)" by simp
    with Some match_at_bounds [of r s i b e g] have "b = i" by simp
    with Some m show ?thesis by simp
  qed
qed

lemma scan_None: "(\<And>j. match_at r s j = None) \<Longrightarrow> scan r s i n = None"
  by (induction n arbitrary: i) simp_all

lemma search_from_bounds:
  assumes "search_from r s i = Some (b, e, g)"
  shows "i \<le> b \<and> b \<le> e \<and> e \<le> length s"
proof -
  from assms have m: "match_at r s b = Some (b, e, g)"
    unfolding search_from_def by (rule scan_match)
  from search_from_start [OF assms] match_at_bounds [OF m] show ?thesis by auto
qed

lemma set_sub_from: "set (sub_from r s i) \<subseteq> set (drop i s)"
proof (induction r s i rule: sub_from.induct)
  case (1 r s i)
  show ?case
  proof (cases "search_from r s i")
    case None
    then show ?thesis by (simp add: sub_from.simps [of r s i])
  next
    case (Some m)
    obtain b e g where m: "m = (b, e, g)" by (cases m)
    note sf = Some [unfolded m]
    from search_from_bounds [OF sf] have bnd: "i \<le> b" "b \<le> e" "e \<le> length s" by auto
    have pre: "set (take (b - i) (drop i s)) \<subseteq> set (drop i s)" by (rule set_take_subset)
    show ?thesis
    proof (cases "b < e")
      case True
      from "1.IH"(1) [OF sf refl refl True] have "set (sub_from r s e) \<subseteq> set (drop e s)" .
      also from bnd have "\<dots> \<subseteq> set (drop i s)" by (simp add: set_drop_subset_set_drop)
      finally show ?thesis using pre sf True by (simp add: sub_from.simps [of r s i])
    next
      case False
      show ?thesis
      proof (cases "b < length s")
        case True
        from "1.IH"(2) [OF sf refl refl False True]
        have "set (sub_from r s (Suc b)) \<subseteq> set (drop (Suc b) s)" .
        also from bnd have "\<dots> \<subseteq> set (drop i s)" by (simp add: set_drop_subset_set_drop)
        finally have rec: "set (sub_from r s (Suc b)) \<subseteq> set (drop i s)" .
        from True bnd have "drop i s ! (b - i) = s ! b" "b - i < length (drop i s)"
          by simp_all
        then have "s ! b \<in> set (drop i s)" by (metis nth_mem)
        with rec pre sf False True show ?thesis by (simp add: sub_from.simps [of r s i])
      next
        case F2: False
        with pre sf False show ?thesis by (simp add: sub_from.simps [of r s i])
      qed
    qed
  qed
qed

lemma length_sub_from: "length (sub_from r s i) \<le> length s - i"
proof (induction r s i rule: sub_from.induct)
  case (1 r s i)
  show ?case
  proof (cases "search_from r s i")
    case None
    then show ?thesis by (simp add: sub_from.simps [of r s i])
  next
    case (Some m)
    obtain b e g where m: "m = (b, e, g)" by (cases m)
    note sf = Some [unfolded m]
    from search_from_bounds [OF sf] have bnd: "i \<le> b" "b \<le> e" "e \<le> length s" by auto
    show ?thesis
    proof (cases "b < e")
      case True
      from "1.IH"(1) [OF sf refl refl True] have "length (sub_from r s e) \<le> length s - e" .
      with bnd sf True show ?thesis by (simp add: sub_from.simps [of r s i])
    next
      case False
      show ?thesis
      proof (cases "b < length s")
        case True
        from "1.IH"(2) [OF sf refl refl False True]
        have "length (sub_from r s (Suc b)) \<le> length s - Suc b" .
        with bnd sf False True show ?thesis by (simp add: sub_from.simps [of r s i])
      next
        case F2: False
        with bnd sf False show ?thesis by (simp add: sub_from.simps [of r s i])
      qed
    qed
  qed
qed

lemma length_sub_from_less:
  assumes "search_from r s i = Some (b, e, g)" "b < e"
  shows "length (sub_from r s i) < length s - i"
proof -
  from search_from_bounds [OF assms(1)] have bnd: "i \<le> b" "b \<le> e" "e \<le> length s" by auto
  have "length (sub_from r s e) \<le> length s - e" by (rule length_sub_from)
  with bnd assms show ?thesis by (simp add: sub_from.simps [of r s i])
qed

lemma sub_from_None: "search_from r s i = None \<Longrightarrow> sub_from r s i = drop i s"
  by (simp add: sub_from.simps [of r s i])

lemma re_sub_no_match: "re_search r s = None \<Longrightarrow> re_sub r s = s"
  by (simp add: re_sub_def re_search_def sub_from_None)

lemma set_re_sub: "set (re_sub r s) \<subseteq> set s"
  using set_sub_from [of r s 0] by (simp add: re_sub_def)

lemma re_sub_shorter:
  assumes "re_search r s = Some (b, e, g)" "b < e"
  shows "length (re_sub r s) < length s"
  using length_sub_from_less [of r s 0 b e g] assms by (simp add: re_sub_def re_search_def)

section \<open>Properties of the normalisation\<close>

lemma of_char_lower:
  "of_char (lower_char c) = (if is_upper c then of_char c + 32 else (of_char c :: nat))"
  by (auto simp: lower_char_def is_upper_def Let_def)

lemma lower_char_not_upper: "\<not> is_upper (lower_char c)"
proof
  assume "is_upper (lower_char c)"
  then show False
    unfolding is_upper_def [of "lower_char c"] Let_def of_char_lower
    by (auto simp: is_upper_def Let_def split: if_splits)
qed

lemma lower_char_fixed: "\<not> is_upper c \<Longrightarrow> lower_char c = c"
  by (simp add: lower_char_def)

lemma lower_char_idem: "lower_char (lower_char c) = lower_char c"
  by (rule lower_char_fixed) (rule lower_char_not_upper)

lemma lower_char_not_B: "lower_char c \<noteq> CHR ''B''"
proof
  assume "lower_char c = CHR ''B''"
  then have "is_upper (lower_char c)" by (simp add: is_upper_def)
  with lower_char_not_upper show False by blast
qed

lemma lower_char_underscore: "lower_char c = CHR ''_'' \<Longrightarrow> c = CHR ''_''"
proof -
  assume a: "lower_char c = CHR ''_''"
  then have "of_char (lower_char c) = (95::nat)" by simp
  then have "\<not> is_upper c"
    by (auto simp: of_char_lower is_upper_def Let_def split: if_splits)
  then have "lower_char c = c" by (rule lower_char_fixed)
  with a show ?thesis by simp
qed

lemma lower_char_slash: "lower_char c = CHR ''/'' \<Longrightarrow> c = CHR ''/''"
proof -
  assume a: "lower_char c = CHR ''/''"
  then have "of_char (lower_char c) = (47::nat)" by simp
  then have "\<not> is_upper c"
    by (auto simp: of_char_lower is_upper_def Let_def split: if_splits)
  then have "lower_char c = c" by (rule lower_char_fixed)
  with a show ?thesis by simp
qed

lemma normalize_name_chars:
  assumes "c \<in> set (normalize_name s)"
  shows "lower_char c = c \<and> c \<noteq> CHR ''B'' \<and> c \<noteq> CHR ''_'' \<and> c \<noteq> CHR ''/''"
proof -
  define name2 where "name2 = re_sub (Seq Bol (Lit ''bench_'')) (re_sub (Seq Bol (Lit ''Benchmark'')) s)"
  define name3 where "name3 = py_lower (remove_char CHR ''/'' (remove_char CHR ''_'' name2))"
  have "normalize_name s = re_sub (Cat [Lit ''-'', PlusG is_digit, Eol]) name3"
    by (simp add: normalize_name_def name3_def name2_def Let_def)
  with assms set_re_sub have "c \<in> set name3" by fastforce
  then obtain c' where c': "c = lower_char c'" "c' \<noteq> CHR ''_''" "c' \<noteq> CHR ''/''"
    by (auto simp: name3_def py_lower_def remove_char_def)
  show ?thesis
    using c' lower_char_idem lower_char_not_B lower_char_underscore lower_char_slash
    by metis
qed

lemma re_sub_prefix_absent:
  assumes "c \<in> set l" "c \<notin> set t"
  shows "re_sub (Seq Bol (Lit l)) t = t"
proof (rule re_sub_no_match)
  have "match_at (Seq Bol (Lit l)) t j = None" for j
  proof (cases "j = 0")
    case True
    have "take (length l) t \<noteq> l"
    proof
      assume "take (length l) t = l"
      with assms(1) have "c \<in> set (take (length l) t)" by simp
      then have "c \<in> set t" by (rule in_set_takeD)
      with assms(2) show False by simp
    qed
    with True show ?thesis by (simp add: match_at_def)
  next
    case False
    then show ?thesis by (simp add: match_at_def)
  qed
  then show "re_search (Seq Bol (Lit l)) t = None"
    by (simp add: re_search_def search_from_def scan_None)
qed

lemma dash_digits_nonempty:
  assumes "re_search (Cat [Lit ''-'', PlusG is_digit, Eol]) t = Some (b, e, g)"
  shows "b < e"
proof -
  from assms have "match_at (Cat [Lit ''-'', PlusG is_digit, Eol]) t b = Some (b, e, g)"
    unfolding re_search_def search_from_def by (rule scan_match)
  then obtain s' rest where
    "ms (Cat [Lit ''-'', PlusG is_digit, Eol]) (b, drop b t, Map.empty) = (e, s', g) # rest"
    by (auto simp: match_at_def split: list.splits)
  then have "(e, s', g) \<in> set (ms (Seq (Lit ''-'') (Seq (PlusG is_digit) Eol)) (b, drop b t, Map.empty))"
    by simp
  then obtain p1 s1 g1 where
    m1: "(p1, s1, g1) \<in> set (ms (Lit ''-'') (b, drop b t, Map.empty))"
    and m2: "(e, s', g) \<in> set (ms (Seq (PlusG is_digit) Eol) (p1, s1, g1))"
    by (auto simp del: ms.simps(3,4,2) simp add: ms.simps(9))
  from m1 have "p1 = Suc b" by (auto split: if_splits)
  moreover from ms_sound [OF m2] have "p1 \<le> e" by simp
  ultimately show ?thesis by simp
qed

text \<open>
  Claim C3, as stated, fails: only one suffix of a dash and digits is removed by one
  application, so a name with two of them loses the second in a second application.
\<close>

theorem normalize_name_not_idempotent:
  "normalize_name (normalize_name ''x-1-2'') \<noteq> normalize_name ''x-1-2''"
  by code_simp

text \<open>
  Claim C3, amended. A second application of \<open>normalize_name\<close> does nothing but remove
  one more match of \<^verbatim>\<open>-\d+$\<close>, a dash and digits at the end of the string (or just
  before a final newline); so \<open>normalize_name\<close> applied twice gives the same as applied
  once exactly for the strings whose normalized form has no such match left.
\<close>

theorem normalize_name_twice:
  "normalize_name (normalize_name s) =
     re_sub (Cat [Lit ''-'', PlusG is_digit, Eol]) (normalize_name s) \<and>
   (normalize_name (normalize_name s) = normalize_name s) =
     (re_search (Cat [Lit ''-'', PlusG is_digit, Eol]) (normalize_name s) = None)"
proof -
  define t where "t = normalize_name s"
  have chars: "lower_char c = c \<and> c \<noteq> CHR ''B'' \<and> c \<noteq> CHR ''_'' \<and> c \<noteq> CHR ''/''"
    if "c \<in> set t" for c
    using that unfolding t_def by (rule normalize_name_chars)
  have n1: "re_sub (Seq Bol (Lit ''Benchmark'')) t = t"
    by (rule re_sub_prefix_absent [of "CHR ''B''"]) (use chars in auto)
  have n2: "re_sub (Seq Bol (Lit ''bench_'')) t = t"
    by (rule re_sub_prefix_absent [of "CHR ''_''"]) (use chars in auto)
  have n3: "remove_char CHR ''_'' t = t" "remove_char CHR ''/'' t = t"
    using chars by (auto simp: remove_char_def filter_id_conv)
  have n4: "py_lower t = t"
    unfolding py_lower_def using chars by (simp add: map_idI)
  have twice: "normalize_name t = re_sub (Cat [Lit ''-'', PlusG is_digit, Eol]) t"
    by (simp add: normalize_name_def [of t] n1 n2 n3 n4 Let_def)
  have fixed: "(re_sub (Cat [Lit ''-'', PlusG is_digit, Eol]) t = t) =
      (re_search (Cat [Lit ''-'', PlusG is_digit, Eol]) t = None)"
  proof
    assume eq: "re_sub (Cat [Lit ''-'', PlusG is_digit, Eol]) t = t"
    show "re_search (Cat [Lit ''-'', PlusG is_digit, Eol]) t = None"
    proof (rule ccontr)
      assume "re_search (Cat [Lit ''-'', PlusG is_digit, Eol]) t \<noteq> None"
      then obtain b e g where m: "re_search (Cat [Lit ''-'', PlusG is_digit, Eol]) t = Some (b, e, g)"
        by auto
      from dash_digits_nonempty [OF m] have "b < e" .
      from re_sub_shorter [OF m this] eq show False by simp
    qed
  next
    assume "re_search (Cat [Lit ''-'', PlusG is_digit, Eol]) t = None"
    then show "re_sub (Cat [Lit ''-'', PlusG is_digit, Eol]) t = t" by (rule re_sub_no_match)
  qed
  from twice fixed show ?thesis unfolding t_def by simp
qed

section \<open>Match results by the text consumed\<close>

lemma in_ms_Bol: "x \<in> set (ms Bol (p, s, g)) \<longleftrightarrow> p = 0 \<and> x = (p, s, g)"
  by auto

lemma in_ms_Eol:
  "x \<in> set (ms Eol (p, s, g)) \<longleftrightarrow> (s = [] \<or> s = [CHR 0x0A]) \<and> x = (p, s, g)"
  by auto

lemma in_ms_Lit:
  "x \<in> set (ms (Lit l) (p, s, g)) \<longleftrightarrow>
     take (length l) s = l \<and> x = (p + length l, drop (length l) s, g)"
  by auto

lemma in_ms_PlusG:
  "x \<in> set (ms (PlusG C) (p, s, g)) \<longleftrightarrow>
     (\<exists>k. 1 \<le> k \<and> k \<le> length (takeWhile C s) \<and> x = (p + k, drop k s, g))"
  by (auto simp: image_iff Bex_def)

lemma in_ms_PlusL:
  "x \<in> set (ms (PlusL C) (p, s, g)) \<longleftrightarrow>
     (\<exists>k. 1 \<le> k \<and> k \<le> length (takeWhile C s) \<and> x = (p + k, drop k s, g))"
  by (auto simp: image_iff Bex_def)

lemma in_ms_StarG:
  "x \<in> set (ms (StarG C) (p, s, g)) \<longleftrightarrow>
     (\<exists>k. k \<le> length (takeWhile C s) \<and> x = (p + k, drop k s, g))"
  by (auto simp: image_iff Bex_def)

lemma in_ms_Opt:
  "x \<in> set (ms (Opt r) (p, s, g)) \<longleftrightarrow> x \<in> set (ms r (p, s, g)) \<or> x = (p, s, g)"
  by auto

lemma in_ms_Grp:
  "x \<in> set (ms (Grp n r) (p, s, g)) \<longleftrightarrow>
     (\<exists>p' s' g'. (p', s', g') \<in> set (ms r (p, s, g)) \<and> x = (p', s', g'(n \<mapsto> take (p' - p) s)))"
  by (auto simp: image_iff) force

lemma in_ms_Seq:
  "x \<in> set (ms (Seq r1 r2) (p, s, g)) \<longleftrightarrow>
     (\<exists>p1 s1 g1. (p1, s1, g1) \<in> set (ms r1 (p, s, g)) \<and> x \<in> set (ms r2 (p1, s1, g1)))"
  by auto

lemma in_ms_Alt:
  "x \<in> set (ms (Alt r1 r2) (p, s, g)) \<longleftrightarrow>
     x \<in> set (ms r1 (p, s, g)) \<or> x \<in> set (ms r2 (p, s, g))"
  by auto

lemmas in_ms = in_ms_Bol in_ms_Eol in_ms_Lit in_ms_PlusG in_ms_PlusL in_ms_StarG in_ms_Opt
  in_ms_Grp in_ms_Seq in_ms_Alt


lemma ms_groups:
  "(p', s', g') \<in> set (ms r (p, s, g)) \<Longrightarrow> n \<notin> grps r \<Longrightarrow> g' n = g n"
proof (induction r arbitrary: p s g p' s' g')
  case (Seq r1 r2)
  from Seq.prems(1) obtain p1 s1 g1 where
    m1: "(p1, s1, g1) \<in> set (ms r1 (p, s, g))" and m2: "(p', s', g') \<in> set (ms r2 (p1, s1, g1))"
    by auto
  from Seq.prems(2) have "n \<notin> grps r1" "n \<notin> grps r2" by simp_all
  with Seq.IH(1) [OF m1] Seq.IH(2) [OF m2] show ?case by simp
next
  case (Grp k r)
  from Grp.prems(1) obtain g1 where
    m: "(p', s', g1) \<in> set (ms r (p, s, g))" and g': "g' = g1(k \<mapsto> take (p' - p) s)"
    by auto
  from Grp.prems(2) have "n \<noteq> k" "n \<notin> grps r" by simp_all
  with Grp.IH [OF m] g' show ?case by simp
qed (auto split: if_splits)

lemma match_at_in_ms:
  assumes "match_at r s i = Some (b, e, g)"
  shows "\<exists>s'. (e, s', g) \<in> set (ms r (i, drop i s, Map.empty))"
  using assms by (auto simp: match_at_def split: list.splits)

lemma take_le_takeWhile:
  assumes "k \<le> length (takeWhile C s)" "c \<in> set (take k s)"
  shows "C c"
proof -
  from assms(1) have "take k s = take k (takeWhile C s)"
    by (metis takeWhile_eq_take take_take min.absorb1)
  with assms(2) have "c \<in> set (takeWhile C s)" by (auto dest: in_set_takeD)
  then show ?thesis by (rule set_takeWhileD [THEN conjunct2])
qed

lemma takeWhile_nonempty:
  assumes "1 \<le> k" "k \<le> length (takeWhile C s)"
  shows "\<exists>c s'. s = c # s' \<and> C c"
proof (cases s)
  case Nil
  with assms show ?thesis by simp
next
  case (Cons c s')
  with assms have "C c" by (auto split: if_splits)
  with Cons show ?thesis by simp
qed

lemma takeWhile_stop:
  assumes "\<And>c. c \<in> set xs \<Longrightarrow> C c" "\<not> C d"
  shows "takeWhile C (xs @ d # ys) = xs"
  using assms by (simp add: takeWhile_append2)


text \<open>The results of a match, by the text consumed.\<close>

lemma ms_consumed:
  assumes "(p', s', g') \<in> set (ms r (p, s, g))"
  shows "\<exists>u. s = u @ s' \<and> p' = p + length u"
proof -
  from ms_sound [OF assms] have "p \<le> p'" "s' = drop (p' - p) s" "p' - p \<le> length s" by auto
  then have "s = take (p' - p) s @ s' \<and> p' = p + length (take (p' - p) s)" by simp
  then show ?thesis by blast
qed

lemma plus_consumed:
  "(\<exists>k. 1 \<le> k \<and> k \<le> length (takeWhile C s) \<and> x = (p + k, drop k s, g)) \<longleftrightarrow>
   (\<exists>u s'. s = u @ s' \<and> u \<noteq> [] \<and> (\<forall>c \<in> set u. C c) \<and> x = (p + length u, s', g))"
proof
  assume "\<exists>k. 1 \<le> k \<and> k \<le> length (takeWhile C s) \<and> x = (p + k, drop k s, g)"
  then obtain k where k: "1 \<le> k" "k \<le> length (takeWhile C s)" and x: "x = (p + k, drop k s, g)"
    by blast
  have "length (takeWhile C s) \<le> length s" by (rule length_takeWhile_le)
  with k have len: "length (take k s) = k" by simp
  with k(1) have ne: "take k s \<noteq> []" by auto
  have allC: "\<forall>c \<in> set (take k s). C c"
    using k(2) by (auto intro: take_le_takeWhile)
  have "s = take k s @ drop k s \<and> take k s \<noteq> [] \<and> (\<forall>c \<in> set (take k s). C c) \<and>
      x = (p + length (take k s), drop k s, g)"
    using ne allC x len by simp
  then show "\<exists>u s'. s = u @ s' \<and> u \<noteq> [] \<and> (\<forall>c \<in> set u. C c) \<and> x = (p + length u, s', g)"
    by blast
next
  assume "\<exists>u s'. s = u @ s' \<and> u \<noteq> [] \<and> (\<forall>c \<in> set u. C c) \<and> x = (p + length u, s', g)"
  then obtain u s' where u: "s = u @ s'" "u \<noteq> []" "\<forall>c \<in> set u. C c"
    and x: "x = (p + length u, s', g)" by blast
  from u(1,3) have "takeWhile C s = u @ takeWhile C s'" by (simp add: takeWhile_append2)
  then have "length u \<le> length (takeWhile C s)" by simp
  moreover from u(2) have "1 \<le> length u" by (cases u) auto
  moreover from u(1) x have "x = (p + length u, drop (length u) s, g)" by simp
  ultimately show "\<exists>k. 1 \<le> k \<and> k \<le> length (takeWhile C s) \<and> x = (p + k, drop k s, g)"
    by blast
qed

lemma by_text_PlusG:
  "x \<in> set (ms (PlusG C) (p, s, g)) \<longleftrightarrow>
     (\<exists>u s'. s = u @ s' \<and> u \<noteq> [] \<and> (\<forall>c \<in> set u. C c) \<and> x = (p + length u, s', g))"
  unfolding in_ms_PlusG by (rule plus_consumed)

lemma by_text_PlusL:
  "x \<in> set (ms (PlusL C) (p, s, g)) \<longleftrightarrow>
     (\<exists>u s'. s = u @ s' \<and> u \<noteq> [] \<and> (\<forall>c \<in> set u. C c) \<and> x = (p + length u, s', g))"
  unfolding in_ms_PlusL by (rule plus_consumed)

lemma by_text_StarG:
  "x \<in> set (ms (StarG C) (p, s, g)) \<longleftrightarrow>
     (\<exists>u s'. s = u @ s' \<and> (\<forall>c \<in> set u. C c) \<and> x = (p + length u, s', g))"
proof
  assume "x \<in> set (ms (StarG C) (p, s, g))"
  then obtain k where k: "k \<le> length (takeWhile C s)" and x: "x = (p + k, drop k s, g)"
    unfolding in_ms_StarG by blast
  have "length (takeWhile C s) \<le> length s" by (rule length_takeWhile_le)
  with k have len: "length (take k s) = k" by simp
  have allC: "\<forall>c \<in> set (take k s). C c"
    using k by (auto intro: take_le_takeWhile)
  have "s = take k s @ drop k s \<and> (\<forall>c \<in> set (take k s). C c) \<and>
      x = (p + length (take k s), drop k s, g)"
    using allC x len by simp
  then show "\<exists>u s'. s = u @ s' \<and> (\<forall>c \<in> set u. C c) \<and> x = (p + length u, s', g)"
    by blast
next
  assume "\<exists>u s'. s = u @ s' \<and> (\<forall>c \<in> set u. C c) \<and> x = (p + length u, s', g)"
  then obtain u s' where u: "s = u @ s'" "\<forall>c \<in> set u. C c"
    and x: "x = (p + length u, s', g)" by blast
  from u have "takeWhile C s = u @ takeWhile C s'" by (simp add: takeWhile_append2)
  then have "length u \<le> length (takeWhile C s)" by simp
  moreover from u(1) x have "x = (p + length u, drop (length u) s, g)" by simp
  ultimately show "x \<in> set (ms (StarG C) (p, s, g))"
    unfolding in_ms_StarG by blast
qed

lemma by_text_Lit:
  "x \<in> set (ms (Lit l) (p, s, g)) \<longleftrightarrow> (\<exists>s'. s = l @ s' \<and> x = (p + length l, s', g))"
proof
  assume "x \<in> set (ms (Lit l) (p, s, g))"
  then have t: "take (length l) s = l" and x: "x = (p + length l, drop (length l) s, g)"
    unfolding in_ms_Lit by auto
  have "s = take (length l) s @ drop (length l) s" by simp
  with t have "s = l @ drop (length l) s" by simp
  with x show "\<exists>s'. s = l @ s' \<and> x = (p + length l, s', g)" by blast
next
  assume "\<exists>s'. s = l @ s' \<and> x = (p + length l, s', g)"
  then show "x \<in> set (ms (Lit l) (p, s, g))" unfolding in_ms_Lit by auto
qed

lemma by_text_Grp:
  "x \<in> set (ms (Grp n r) (p, s, g)) \<longleftrightarrow>
     (\<exists>u s' g'. s = u @ s' \<and> (p + length u, s', g') \<in> set (ms r (p, s, g)) \<and>
        x = (p + length u, s', g'(n \<mapsto> u)))"
proof
  assume "x \<in> set (ms (Grp n r) (p, s, g))"
  then obtain p' s' g' where m: "(p', s', g') \<in> set (ms r (p, s, g))"
    and x: "x = (p', s', g'(n \<mapsto> take (p' - p) s))"
    unfolding in_ms_Grp by (elim exE conjE)
  from ms_consumed [OF m] obtain u where u: "s = u @ s'" "p' = p + length u"
    by (elim exE conjE)
  then have "take (p' - p) s = u" by simp
  with m x u have "s = u @ s' \<and> (p + length u, s', g') \<in> set (ms r (p, s, g)) \<and>
        x = (p + length u, s', g'(n \<mapsto> u))" by simp
  then show "\<exists>u s' g'. s = u @ s' \<and> (p + length u, s', g') \<in> set (ms r (p, s, g)) \<and>
        x = (p + length u, s', g'(n \<mapsto> u))"
    by (intro exI)
next
  assume "\<exists>u s' g'. s = u @ s' \<and> (p + length u, s', g') \<in> set (ms r (p, s, g)) \<and>
        x = (p + length u, s', g'(n \<mapsto> u))"
  then obtain u s' g' where u: "s = u @ s'" and m: "(p + length u, s', g') \<in> set (ms r (p, s, g))"
    and x: "x = (p + length u, s', g'(n \<mapsto> u))" by (elim exE conjE)
  from u have "take (p + length u - p) s = u" by simp
  with x m have "(p + length u, s', g') \<in> set (ms r (p, s, g)) \<and>
      x = (p + length u, s', g'(n \<mapsto> take (p + length u - p) s))" by simp
  then have "\<exists>p' s' g'. (p', s', g') \<in> set (ms r (p, s, g)) \<and>
      x = (p', s', g'(n \<mapsto> take (p' - p) s))"
    by (intro exI)
  then show "x \<in> set (ms (Grp n r) (p, s, g))" unfolding in_ms_Grp .
qed

lemmas by_text = in_ms_Bol in_ms_Eol by_text_Lit by_text_PlusG by_text_PlusL by_text_StarG
  in_ms_Opt by_text_Grp in_ms_Seq in_ms_Alt

declare ms.simps [simp del]


lemma digit_non_space: "is_digit c \<Longrightarrow> non_space c"
  by (auto simp: is_digit_def is_space_def non_space_def Let_def)

lemma non_space_Benchmark: "c \<in> set ''Benchmark'' \<Longrightarrow> non_space c"
  by (auto simp: non_space_def is_space_def)

lemma non_space_dash: "non_space CHR ''-''"
  by (simp add: non_space_def is_space_def)

lemma non_space_slash: "non_space CHR ''/''"
  by (simp add: non_space_def is_space_def)

lemma is_space_newline: "is_space (CHR 0x0A)"
  by (simp add: is_space_def)

lemma token_first:
  assumes "\<And>c. c \<in> set u \<Longrightarrow> non_space c" "w \<noteq> []" "\<And>c. c \<in> set w \<Longrightarrow> is_space c"
  shows "takeWhile non_space (u @ w @ rest) = u"
proof -
  from assms(2) obtain d w' where w: "w = d # w'" by (cases w) auto
  with assms(3) have "\<not> non_space d" by (simp add: non_space_def)
  with assms(1) have "takeWhile non_space (u @ d # (w' @ rest)) = u" by (rule takeWhile_stop)
  with w show ?thesis by simp
qed

lemma token_pattern:
  assumes "(e, s', g) \<in> set (ms (Seq Bol (Seq (Grp n (PlusG non_space))
             (Seq (PlusG is_space) (Seq (Lit lit) tail)))) (0, l, g0))"
    and "n \<notin> grps tail"
  shows "\<exists>u w rest. l = u @ w @ lit @ rest \<and> u \<noteq> [] \<and> (\<forall>c \<in> set u. non_space c) \<and>
           w \<noteq> [] \<and> (\<forall>c \<in> set w. is_space c) \<and> g n = Some u \<and>
           (\<forall>k. k \<noteq> n \<longrightarrow> k \<notin> grps tail \<longrightarrow> g k = g0 k)"
proof -
  from assms(1) obtain p1 s1 g1 where
    a1: "(p1, s1, g1) \<in> set (ms Bol (0, l, g0))"
    and r1: "(e, s', g) \<in> set (ms (Seq (Grp n (PlusG non_space))
             (Seq (PlusG is_space) (Seq (Lit lit) tail))) (p1, s1, g1))"
    unfolding in_ms_Seq [of _ Bol] by (elim exE conjE)
  from a1 have st1: "p1 = 0" "s1 = l" "g1 = g0" by (simp_all add: in_ms_Bol)
  from r1 obtain p2 s2 g2 where
    a2: "(p2, s2, g2) \<in> set (ms (Grp n (PlusG non_space)) (p1, s1, g1))"
    and r2: "(e, s', g) \<in> set (ms (Seq (PlusG is_space) (Seq (Lit lit) tail)) (p2, s2, g2))"
    unfolding in_ms_Seq [of _ "Grp n (PlusG non_space)"] by (elim exE conjE)
  from a2 obtain u where u: "l = u @ s2" "u \<noteq> []" "\<forall>c \<in> set u. non_space c" "g2 = g0(n \<mapsto> u)"
    unfolding by_text_Grp by_text_PlusG st1 by auto
  from r2 obtain p3 s3 g3 where
    a3: "(p3, s3, g3) \<in> set (ms (PlusG is_space) (p2, s2, g2))"
    and r3: "(e, s', g) \<in> set (ms (Seq (Lit lit) tail) (p3, s3, g3))"
    unfolding in_ms_Seq [of _ "PlusG is_space"] by (elim exE conjE)
  from a3 obtain w where w: "s2 = w @ s3" "w \<noteq> []" "\<forall>c \<in> set w. is_space c" "g3 = g2"
    unfolding by_text_PlusG by auto
  from r3 obtain p4 s4 g4 where
    a4: "(p4, s4, g4) \<in> set (ms (Lit lit) (p3, s3, g3))"
    and r4: "(e, s', g) \<in> set (ms tail (p4, s4, g4))"
    unfolding in_ms_Seq [of _ "Lit lit"] by (elim exE conjE)
  from a4 have l4: "s3 = lit @ s4" "g4 = g3" unfolding by_text_Lit by auto
  from ms_groups [OF r4 assms(2)] l4 w u have gn: "g n = Some u" by simp
  have others: "g k = g0 k" if "k \<noteq> n" "k \<notin> grps tail" for k
    using ms_groups [OF r4 that(2)] l4 w u that(1) by simp
  from u w l4 have "l = u @ w @ lit @ s4" by simp
  with u w gn others show ?thesis by blast
qed

lemma token_pattern_match:
  assumes "l = u @ w @ lit @ rest" "u \<noteq> []" "\<forall>c \<in> set u. non_space c"
    "w \<noteq> []" "\<forall>c \<in> set w. is_space c"
  shows "(length u + length w + length lit, rest, g0(n \<mapsto> u)) \<in>
     set (ms (Seq Bol (Seq (Grp n (PlusG non_space)) (Seq (PlusG is_space) (Lit lit)))) (0, l, g0))"
proof -
  have a1: "(0, l, g0) \<in> set (ms Bol (0, l, g0))" by (simp add: in_ms_Bol)
  have "(0 + length u, w @ lit @ rest, g0) \<in> set (ms (PlusG non_space) (0, l, g0))"
    unfolding by_text_PlusG using assms(1,2,3) by blast
  with assms(1) have a2: "(0 + length u, w @ lit @ rest, g0(n \<mapsto> u)) \<in>
      set (ms (Grp n (PlusG non_space)) (0, l, g0))"
    unfolding by_text_Grp by blast
  have a3: "(0 + length u + length w, lit @ rest, g0(n \<mapsto> u)) \<in>
      set (ms (PlusG is_space) (0 + length u, w @ lit @ rest, g0(n \<mapsto> u)))"
    unfolding by_text_PlusG using assms(4,5) by blast
  have a4: "(0 + length u + length w + length lit, rest, g0(n \<mapsto> u)) \<in>
      set (ms (Lit lit) (0 + length u + length w, lit @ rest, g0(n \<mapsto> u)))"
    unfolding by_text_Lit by blast
  from a3 a4 have "(0 + length u + length w + length lit, rest, g0(n \<mapsto> u)) \<in>
      set (ms (Seq (PlusG is_space) (Lit lit)) (0 + length u, w @ lit @ rest, g0(n \<mapsto> u)))"
    unfolding in_ms_Seq by blast
  with a2 have "(0 + length u + length w + length lit, rest, g0(n \<mapsto> u)) \<in>
      set (ms (Seq (Grp n (PlusG non_space)) (Seq (PlusG is_space) (Lit lit))) (0, l, g0))"
    unfolding in_ms_Seq [of _ "Grp n (PlusG non_space)"] by blast
  with a1 have "(0 + length u + length w + length lit, rest, g0(n \<mapsto> u)) \<in>
      set (ms (Seq Bol (Seq (Grp n (PlusG non_space)) (Seq (PlusG is_space) (Lit lit)))) (0, l, g0))"
    unfolding in_ms_Seq [of _ Bol] by blast
  then show ?thesis by simp
qed

lemma in_ms_matched:
  assumes "x \<in> set (ms r (0, l, Map.empty))"
  shows "matched (re_match r l)"
proof (cases "ms r (0, l, Map.empty)")
  case Nil
  with assms show ?thesis by simp
next
  case (Cons y ys)
  then show ?thesis by (cases y) (simp add: re_match_def match_at_def)
qed

lemma matched_iff: "matched x \<longleftrightarrow> x \<noteq> None"
  by (cases x) simp_all

lemma re_match_in_ms:
  assumes "re_match r l = Some m"
  shows "\<exists>e s' g. m = (0, e, g) \<and> (e, s', g) \<in> set (ms r (0, l, Map.empty))"
  using assms by (auto simp: re_match_def match_at_def split: list.splits)

lemma token_head:
  assumes "(e, s', g) \<in> set (ms (Seq Bol (Seq (Grp n (PlusG non_space))
             (Seq (PlusG is_space) rest_r))) (0, l, g0))"
  shows "\<exists>u w s3 p3. l = u @ w @ s3 \<and> u \<noteq> [] \<and> (\<forall>c \<in> set u. non_space c) \<and>
           w \<noteq> [] \<and> (\<forall>c \<in> set w. is_space c) \<and> takeWhile non_space l = u \<and>
           (e, s', g) \<in> set (ms rest_r (p3, s3, g0(n \<mapsto> u)))"
proof -
  from assms obtain p1 s1 g1 where
    a1: "(p1, s1, g1) \<in> set (ms Bol (0, l, g0))"
    and r1: "(e, s', g) \<in> set (ms (Seq (Grp n (PlusG non_space))
             (Seq (PlusG is_space) rest_r)) (p1, s1, g1))"
    unfolding in_ms_Seq [of _ Bol] by (elim exE conjE)
  from a1 have st1: "p1 = 0" "s1 = l" "g1 = g0" by (simp_all add: in_ms_Bol)
  from r1 obtain p2 s2 g2 where
    a2: "(p2, s2, g2) \<in> set (ms (Grp n (PlusG non_space)) (p1, s1, g1))"
    and r2: "(e, s', g) \<in> set (ms (Seq (PlusG is_space) rest_r) (p2, s2, g2))"
    unfolding in_ms_Seq [of _ "Grp n (PlusG non_space)"] by (elim exE conjE)
  from a2 obtain u where u: "l = u @ s2" "u \<noteq> []" "\<forall>c \<in> set u. non_space c" "g2 = g0(n \<mapsto> u)"
    unfolding by_text_Grp by_text_PlusG st1 by auto
  from r2 obtain p3 s3 g3 where
    a3: "(p3, s3, g3) \<in> set (ms (PlusG is_space) (p2, s2, g2))"
    and r3: "(e, s', g) \<in> set (ms rest_r (p3, s3, g3))"
    unfolding in_ms_Seq [of _ "PlusG is_space"] by (elim exE conjE)
  from a3 obtain w where w: "s2 = w @ s3" "w \<noteq> []" "\<forall>c \<in> set w. is_space c" "g3 = g2"
    unfolding by_text_PlusG by auto
  from u w have l: "l = u @ w @ s3" by simp
  from u(3) w(2,3) have "takeWhile non_space (u @ w @ s3) = u" by (intro token_first) auto
  with l have tw: "takeWhile non_space l = u" by simp
  from r3 u w have "(e, s', g) \<in> set (ms rest_r (p3, s3, g0(n \<mapsto> u)))" by simp
  with l u w tw show ?thesis by blast
qed

lemma simple_pattern_token:
  assumes "re_match simple_pattern l = Some m"
  shows "group m 1 = Some (takeWhile non_space l) \<and> takeWhile non_space l \<noteq> [] \<and>
         matched (re_match name_pattern l)"
proof -
  define tail where "tail = Cat [PlusG is_space, Lit ''['',
      Grp 2 (PlusG digit_or_dot), PlusG is_space, Grp 3 (PlusG is_word)]"
  have pat: "simple_pattern = Seq Bol (Seq (Grp 1 (PlusG non_space))
      (Seq (PlusG is_space) (Seq (Lit ''time:'') tail)))"
    by (simp add: simple_pattern_def tail_def)
  have tail: "1 \<notin> grps (Seq (Lit ''time:'') tail)" by (simp add: tail_def)
  from re_match_in_ms [OF assms] obtain e s' g where
    m: "m = (0, e, g)" and ms: "(e, s', g) \<in> set (ms simple_pattern (0, l, Map.empty))"
    by blast
  from token_head [OF ms [unfolded pat]] obtain u w s3 p3 where
    l: "l = u @ w @ s3" and u: "u \<noteq> []" "\<forall>c \<in> set u. non_space c"
    and w: "w \<noteq> []" "\<forall>c \<in> set w. is_space c" and tw: "takeWhile non_space l = u"
    and rest: "(e, s', g) \<in> set (ms (Seq (Lit ''time:'') tail) (p3, s3, [1 \<mapsto> u]))"
    by blast
  from ms_groups [OF rest tail] have g1: "g 1 = Some u" by simp
  from rest obtain s4 where s3: "s3 = ''time:'' @ s4"
    unfolding in_ms_Seq by_text_Lit by blast
  from l s3 have "l = u @ w @ ''time:'' @ s4" by simp
  from token_pattern_match [OF this u w, of Map.empty 2]
  have "(length u + length w + length ''time:'', s4, [2 \<mapsto> u]) \<in>
      set (ms name_pattern (0, l, Map.empty))"
    unfolding name_pattern_def in_ms_Alt by simp
  then have "matched (re_match name_pattern l)" by (rule in_ms_matched)
  with g1 m tw u show ?thesis by (simp add: group_def)
qed

lemma name_pattern_token:
  assumes "re_match name_pattern l = Some m"
  shows "py_or (group m 1) (group m 2) = Some (takeWhile non_space l) \<and>
         takeWhile non_space l \<noteq> []"
proof -
  from re_match_in_ms [OF assms] obtain e s' g where
    m: "m = (0, e, g)" and ms: "(e, s', g) \<in> set (ms name_pattern (0, l, Map.empty))"
    by blast
  from ms consider
    (path) "(e, s', g) \<in> set (ms (Seq Bol (Seq (Grp 1 (Seq (PlusG non_space)
        (Seq (Lit ''/'') (PlusG non_space)))) (Seq (StarG is_space) Eol))) (0, l, Map.empty))"
  | (time) "(e, s', g) \<in> set (ms (Seq Bol (Seq (Grp 2 (PlusG non_space))
        (Seq (PlusG is_space) (Lit ''time:'')))) (0, l, Map.empty))"
    unfolding name_pattern_def in_ms_Alt by auto
  then show ?thesis
  proof cases
    case time
    from token_head [OF time] obtain u w s3 p3 where
      u: "u \<noteq> []" and tw: "takeWhile non_space l = u"
      and rest: "(e, s', g) \<in> set (ms (Lit ''time:'') (p3, s3, [2 \<mapsto> u]))"
      by blast
    from rest have "g = [2 \<mapsto> u]" unfolding by_text_Lit by blast
    with m u tw show ?thesis by (simp add: group_def py_or_def truthy_def)
  next
    case path
    from path obtain p1 s1 g1 where
      a1: "(p1, s1, g1) \<in> set (ms Bol (0, l, Map.empty))"
      and r1: "(e, s', g) \<in> set (ms (Seq (Grp 1 (Seq (PlusG non_space)
          (Seq (Lit ''/'') (PlusG non_space)))) (Seq (StarG is_space) Eol)) (p1, s1, g1))"
      unfolding in_ms_Seq [of _ Bol] by (elim exE conjE)
    from a1 have st1: "p1 = 0" "s1 = l" "g1 = Map.empty" by (simp_all add: in_ms_Bol)
    from r1 obtain p2 s2 g2 where
      a2: "(p2, s2, g2) \<in> set (ms (Grp 1 (Seq (PlusG non_space)
          (Seq (Lit ''/'') (PlusG non_space)))) (p1, s1, g1))"
      and r2: "(e, s', g) \<in> set (ms (Seq (StarG is_space) Eol) (p2, s2, g2))"
      unfolding in_ms_Seq [of _ "Grp 1 (Seq (PlusG non_space) (Seq (Lit ''/'') (PlusG non_space)))"]
      by (elim exE conjE)
    from a2 obtain u g' where u: "l = u @ s2" "g2 = g'(1 \<mapsto> u)"
      and inner: "(0 + length u, s2, g') \<in> set (ms (Seq (PlusG non_space)
          (Seq (Lit ''/'') (PlusG non_space))) (0, l, Map.empty))"
      unfolding by_text_Grp st1 by auto
    from inner obtain a b ra rb where
      a: "l = a @ ra" "a \<noteq> []" "\<forall>c \<in> set a. non_space c"
      and sl: "ra = ''/'' @ rb"
      and b: "rb = b @ s2" "b \<noteq> []" "\<forall>c \<in> set b. non_space c"
      unfolding in_ms_Seq by_text_PlusG by_text_Lit by auto
    from a sl b u(1) have ueq: "u = a @ ''/'' @ b" by simp
    with a b have une: "u \<noteq> []" and uns: "\<forall>c \<in> set u. non_space c"
      by (auto simp: non_space_slash)
    from r2 obtain w where w: "s2 = w @ s'" "\<forall>c \<in> set w. is_space c"
      and e: "s' = [] \<or> s' = [CHR 0x0A]" and g: "g = g2"
      unfolding in_ms_Seq by_text_StarG in_ms_Eol by auto
    have sp: "\<forall>c \<in> set s2. is_space c"
      using w e by (auto simp: is_space_newline)
    have "takeWhile non_space (u @ s2) = u"
    proof (cases s2)
      case Nil
      with uns show ?thesis by (simp add: takeWhile_eq_all_conv)
    next
      case (Cons d s2')
      with sp have "\<not> non_space d" by (simp add: non_space_def)
      with uns Cons show ?thesis by (simp add: takeWhile_append2)
    qed
    with u(1) have tw: "takeWhile non_space l = u" by simp
    from g u(2) m have "group m 1 = Some u" by (simp add: group_def)
    with une tw show ?thesis by (simp add: py_or_def truthy_def)
  qed
qed

lemma name_step_matched:
  assumes "matched (re_match name_pattern l)"
  shows "name_step l cur = Some (replace_char CHR ''/'' CHR ''_'' (takeWhile non_space l)) \<and>
         takeWhile non_space l \<noteq> []"
proof -
  from assms obtain m where m: "re_match name_pattern l = Some m"
    by (cases "re_match name_pattern l") auto
  from name_pattern_token [OF m] m show ?thesis
    by (simp add: name_step_def truthy_def)
qed

lemma name_step_unmatched:
  assumes "\<not> matched (re_match name_pattern l)"
  shows "name_step l cur = cur"
  using assms by (cases "re_match name_pattern l") (simp_all add: name_step_def)

section \<open>Where the names of the records come from\<close>

lemma go_pattern_name:
  assumes "re_match go_pattern l = Some m" "group m 1 = Some nm"
  shows "\<exists>suf. takeWhile non_space l = ''Benchmark'' @ nm @ suf \<and>
           (suf = [] \<or> dash_digits_suffix suf)"
proof -
  define tail where "tail = Cat
     [Grp 2 (PlusG is_digit), PlusG is_space,
      Grp 3 (PlusG digit_or_dot), PlusG is_space, Lit ''ns/op'',
      Opt (Cat [PlusG is_space, Grp 4 (PlusG is_digit), PlusG is_space, Lit ''B/op'']),
      Opt (Cat [PlusG is_space, Grp 5 (PlusG is_digit), PlusG is_space, Lit ''allocs/op''])]"
  define opt where "opt = Opt (Seq (Lit ''-'') (PlusG is_digit))"
  have pat: "go_pattern = Seq Bol (Seq (Lit ''Benchmark'') (Seq (Grp 1 (PlusL non_space))
      (Seq opt (Seq (PlusG is_space) tail))))"
    by (simp add: go_pattern_def tail_def opt_def)
  have tail: "1 \<notin> grps tail" by (simp add: tail_def)
  from re_match_in_ms [OF assms(1)] obtain e s' g where
    m: "m = (0, e, g)" and ms: "(e, s', g) \<in> set (ms go_pattern (0, l, Map.empty))"
    by blast
  from ms obtain p1 s1 g1 where
    a1: "(p1, s1, g1) \<in> set (ms Bol (0, l, Map.empty))"
    and r1: "(e, s', g) \<in> set (ms (Seq (Lit ''Benchmark'') (Seq (Grp 1 (PlusL non_space))
      (Seq opt (Seq (PlusG is_space) tail)))) (p1, s1, g1))"
    unfolding pat in_ms_Seq [of _ Bol] by (elim exE conjE)
  from a1 have st1: "s1 = l" "g1 = Map.empty" by (simp_all add: in_ms_Bol)
  from r1 obtain p2 s2 g2 where
    a2: "(p2, s2, g2) \<in> set (ms (Lit ''Benchmark'') (p1, s1, g1))"
    and r2: "(e, s', g) \<in> set (ms (Seq (Grp 1 (PlusL non_space))
      (Seq opt (Seq (PlusG is_space) tail))) (p2, s2, g2))"
    unfolding in_ms_Seq [of _ "Lit ''Benchmark''"] by (elim exE conjE)
  from a2 have st2: "l = ''Benchmark'' @ s2" "g2 = Map.empty"
    unfolding by_text_Lit st1 by auto
  from r2 obtain p3 s3 g3 where
    a3: "(p3, s3, g3) \<in> set (ms (Grp 1 (PlusL non_space)) (p2, s2, g2))"
    and r3: "(e, s', g) \<in> set (ms (Seq opt (Seq (PlusG is_space) tail)) (p3, s3, g3))"
    unfolding in_ms_Seq [of _ "Grp 1 (PlusL non_space)"] by (elim exE conjE)
  from a3 obtain u where u: "s2 = u @ s3" "\<forall>c \<in> set u. non_space c" "g3 = [1 \<mapsto> u]"
    unfolding by_text_Grp by_text_PlusL st2 by auto
  from r3 obtain p4 s4 g4 where
    a4: "(p4, s4, g4) \<in> set (ms opt (p3, s3, g3))"
    and r4: "(e, s', g) \<in> set (ms (Seq (PlusG is_space) tail) (p4, s4, g4))"
    unfolding in_ms_Seq [of _ opt] by (elim exE conjE)
  from a4 have "\<exists>suf. s3 = suf @ s4 \<and> g4 = g3 \<and> (suf = [] \<or> dash_digits_suffix suf)"
    unfolding opt_def in_ms_Opt
  proof
    assume "(p4, s4, g4) = (p3, s3, g3)"
    then show ?thesis by simp
  next
    assume "(p4, s4, g4) \<in> set (ms (Seq (Lit ''-'') (PlusG is_digit)) (p3, s3, g3))"
    then obtain ds rd where d: "s3 = ''-'' @ rd" "rd = ds @ s4" "ds \<noteq> []"
      "\<forall>c \<in> set ds. is_digit c" "g4 = g3"
      unfolding in_ms_Seq by_text_Lit by_text_PlusG by auto
    then have "s3 = (CHR ''-'' # ds) @ s4" "dash_digits_suffix (CHR ''-'' # ds)"
      by (simp_all add: dash_digits_suffix_def list_all_iff)
    with d(5) show ?thesis by blast
  qed
  then obtain suf where suf: "s3 = suf @ s4" "g4 = g3" "suf = [] \<or> dash_digits_suffix suf"
    by blast
  from r4 obtain p5 s5 g5 where
    a5: "(p5, s5, g5) \<in> set (ms (PlusG is_space) (p4, s4, g4))"
    and r5: "(e, s', g) \<in> set (ms tail (p5, s5, g5))"
    unfolding in_ms_Seq [of _ "PlusG is_space"] by (elim exE conjE)
  from a5 obtain w where w: "s4 = w @ s5" "w \<noteq> []" "\<forall>c \<in> set w. is_space c" "g5 = g4"
    unfolding by_text_PlusG by auto
  from ms_groups [OF r5 tail] w(4) suf(2) u(3) have "g 1 = Some u" by simp
  with assms(2) m have nm: "nm = u" by (simp add: group_def)
  have ns: "non_space c" if "c \<in> set (''Benchmark'' @ u @ suf)" for c
  proof -
    from that consider "c \<in> set ''Benchmark''" | "c \<in> set u" | "c \<in> set suf" by auto
    then show ?thesis
    proof cases
      case 1
      then show ?thesis by (rule non_space_Benchmark)
    next
      case 2
      with u(2) show ?thesis by simp
    next
      case 3
      with suf(3) show ?thesis
        by (cases suf) (auto simp: dash_digits_suffix_def list_all_iff non_space_dash
            intro: digit_non_space)
    qed
  qed
  have "takeWhile non_space ((''Benchmark'' @ u @ suf) @ w @ s5) = ''Benchmark'' @ u @ suf"
    using ns w(2,3) by (intro token_first) auto
  moreover from st2 u(1) suf(1) w(1) have "l = (''Benchmark'' @ u @ suf) @ w @ s5" by simp
  ultimately show ?thesis using nm suf(3) by auto
qed

lemma dict_get_set:
  "dict_get (dict_set k v d) k' = (if k' = k then Some v else dict_get d k')"
  by (simp add: dict_get_def dict_set_def update_conv')

lemma go_line_origin:
  assumes "go_line line results = Inr results'" "dict_get results' key = Some r"
  shows "dict_get results key = Some r \<or>
         (\<exists>nm suf. name r = ''Benchmark'' @ nm \<and> first_token line = ''Benchmark'' @ nm @ suf \<and>
            (suf = [] \<or> dash_digits_suffix suf))"
proof (cases "re_match go_pattern (py_strip line)")
  case None
  with assms show ?thesis by (simp add: go_line_def)
next
  case (Some m)
  with assms(1) obtain nm ns bo ao where nm: "group m 1 = Some nm"
    and res: "results' = dict_set (normalize_name nm)
        \<lparr>name = ''Benchmark'' @ nm, ns_per_op = ns, bytes_per_op = bo, allocs_per_op = ao,
         source = ''go''\<rparr> results"
    by (auto simp: go_line_def split: option.splits sum.splits)
  from go_pattern_name [OF Some nm] obtain suf where
    "first_token line = ''Benchmark'' @ nm @ suf" "suf = [] \<or> dash_digits_suffix suf"
    unfolding first_token_def by blast
  with assms(2) res show ?thesis
    by (auto simp: dict_get_set split: if_splits)
qed

lemma go_lines_origin:
  assumes "go_lines fl results = Inr results'" "dict_get results' key = Some r"
  shows "dict_get results key = Some r \<or>
         (\<exists>line \<in> set fl. \<exists>nm suf. name r = ''Benchmark'' @ nm \<and>
            first_token line = ''Benchmark'' @ nm @ suf \<and> (suf = [] \<or> dash_digits_suffix suf))"
  using assms
proof (induction fl arbitrary: results)
  case Nil
  then show ?case by simp
next
  case (Cons line rest)
  from Cons.prems(1) obtain mid where
    mid: "go_line line results = Inr mid" and rest: "go_lines rest mid = Inr results'"
    by (auto split: sum.splits)
  from Cons.IH [OF rest Cons.prems(2)] show ?case
  proof
    assume "dict_get mid key = Some r"
    from go_line_origin [OF mid this] show ?thesis by auto
  next
    assume "\<exists>line \<in> set rest. \<exists>nm suf. name r = ''Benchmark'' @ nm \<and>
            first_token line = ''Benchmark'' @ nm @ suf \<and> (suf = [] \<or> dash_digits_suffix suf)"
    then show ?thesis by auto
  qed
qed

lemma rust_result_Inr:
  assumes "rust_result nm v u results = Inr results'"
  shows "\<exists>n t x un. nm = Some n \<and> v = Some t \<and> py_float t = Inr x \<and> u = Some un \<and>
     results' = dict_set (normalize_name n)
       \<lparr>name = n, ns_per_op = convert_to_ns x un, bytes_per_op = None, allocs_per_op = None,
        source = ''rust''\<rparr> results"
  using assms by (auto simp: rust_result_def split: option.splits sum.splits)

lemma time_step_Inr:
  assumes "time_step l (cur, res) = Inr (cur', res')"
  shows "(cur' = cur \<and> res' = res \<and> (\<not> matched (re_search time_pattern l) \<or> \<not> truthy cur)) \<or>
         (cur' = None \<and> truthy cur \<and>
          (\<exists>m. re_search time_pattern l = Some m \<and>
                rust_result cur (group m 3) (group m 4) res = Inr res'))"
  using assms by (auto simp: time_step_def split: option.splits sum.splits if_splits)

lemma simple_step_Inr:
  assumes "simple_step l (cur, res) = Inr (cur', res')"
  shows "cur' = cur \<and>
         ((res' = res \<and> \<not> matched (re_match simple_pattern l)) \<or>
          (\<exists>m. re_match simple_pattern l = Some m \<and>
                rust_result (group m 1) (group m 2) (group m 3) res = Inr res'))"
  using assms by (auto simp: simple_step_def split: option.splits sum.splits)

lemma rust_line_Inr:
  assumes "rust_line line (cur, res) = Inr (cur', res')"
  shows "\<exists>cur1 res1. time_step (py_strip line) (name_step (py_strip line) cur, res) = Inr (cur1, res1) \<and>
           simple_step (py_strip line) (cur1, res1) = Inr (cur', res')"
  using assms by (auto simp: rust_line_def Let_def split: sum.splits)

lemma name_step_cases:
  "name_step l cur = cur \<or>
   name_step l cur = Some (replace_char CHR ''/'' CHR ''_'' (takeWhile non_space l))"
  using name_step_matched [of l cur] name_step_unmatched [of l cur] by blast

lemma rust_line_origin:
  assumes "rust_line line (cur, res) = Inr (cur', res')"
  shows "(cur' = None \<or> cur' = cur \<or>
            cur' = Some (replace_char CHR ''/'' CHR ''_'' (first_token line))) \<and>
         (\<forall>key r. dict_get res' key = Some r \<longrightarrow>
            dict_get res key = Some r \<or> name r = first_token line \<or>
            name r = replace_char CHR ''/'' CHR ''_'' (first_token line) \<or> cur = Some (name r))"
proof -
  define l where "l = py_strip line"
  define tok where "tok = takeWhile non_space l"
  have ft: "first_token line = tok" by (simp add: first_token_def tok_def l_def)
  from rust_line_Inr [OF assms] obtain cur1 res1 where
    ts: "time_step l (name_step l cur, res) = Inr (cur1, res1)"
    and ss: "simple_step l (cur1, res1) = Inr (cur', res')"
    unfolding l_def by blast
  have ns: "name_step l cur = cur \<or> name_step l cur = Some (replace_char CHR ''/'' CHR ''_'' tok)"
    unfolding tok_def by (rule name_step_cases)
  from simple_step_Inr [OF ss] have c': "cur' = cur1" by simp
  from time_step_Inr [OF ts] have c1: "cur1 = None \<or> cur1 = name_step l cur" by auto
  from c' c1 ns have cur: "cur' = None \<or> cur' = cur \<or>
      cur' = Some (replace_char CHR ''/'' CHR ''_'' (first_token line))"
    unfolding ft by auto
  have r1: "dict_get res key = Some r \<or>
      name r = replace_char CHR ''/'' CHR ''_'' tok \<or> cur = Some (name r)"
    if "dict_get res1 key = Some r" for key r
  proof -
    from time_step_Inr [OF ts] show ?thesis
    proof
      assume "cur1 = name_step l cur \<and> res1 = res \<and>
          (\<not> matched (re_search time_pattern l) \<or> \<not> truthy (name_step l cur))"
      with that show ?thesis by simp
    next
      assume "cur1 = None \<and> truthy (name_step l cur) \<and>
          (\<exists>m. re_search time_pattern l = Some m \<and>
                rust_result (name_step l cur) (group m 3) (group m 4) res = Inr res1)"
      then obtain m where "rust_result (name_step l cur) (group m 3) (group m 4) res = Inr res1"
        by blast
      from rust_result_Inr [OF this] obtain n x un where n: "name_step l cur = Some n"
        and res1: "res1 = dict_set (normalize_name n)
          \<lparr>name = n, ns_per_op = convert_to_ns x un, bytes_per_op = None, allocs_per_op = None,
           source = ''rust''\<rparr> res"
        by blast
      from that res1 have "dict_get res key = Some r \<or> name r = n"
        by (auto simp: dict_get_set split: if_splits)
      with n ns show ?thesis by auto
    qed
  qed
  have r2: "dict_get res key = Some r \<or> name r = tok \<or>
      name r = replace_char CHR ''/'' CHR ''_'' tok \<or> cur = Some (name r)"
    if "dict_get res' key = Some r" for key r
  proof -
    from simple_step_Inr [OF ss]
    have "res' = res1 \<or> (\<exists>m. re_match simple_pattern l = Some m \<and>
        rust_result (group m 1) (group m 2) (group m 3) res1 = Inr res')" by auto
    then show ?thesis
    proof
      assume "res' = res1"
      with that r1 show ?thesis by auto
    next
      assume "\<exists>m. re_match simple_pattern l = Some m \<and>
        rust_result (group m 1) (group m 2) (group m 3) res1 = Inr res'"
      then obtain m where m: "re_match simple_pattern l = Some m"
        and rr: "rust_result (group m 1) (group m 2) (group m 3) res1 = Inr res'" by blast
      from simple_pattern_token [OF m] have g1: "group m 1 = Some tok" by (simp add: tok_def)
      from rust_result_Inr [OF rr] g1 obtain x un where
        "res' = dict_set (normalize_name tok)
          \<lparr>name = tok, ns_per_op = convert_to_ns x un, bytes_per_op = None, allocs_per_op = None,
           source = ''rust''\<rparr> res1"
        by auto
      with that have "dict_get res1 key = Some r \<or> name r = tok"
        by (auto simp: dict_get_set split: if_splits)
      with r1 show ?thesis by auto
    qed
  qed
  from cur r2 show ?thesis unfolding ft by blast
qed

lemma rust_lines_origin:
  assumes "rust_lines fl (cur, res) = Inr (cur', res')"
    and "set fl \<subseteq> L"
    and "\<forall>c. cur = Some c \<longrightarrow>
           (\<exists>line \<in> L. c = replace_char CHR ''/'' CHR ''_'' (first_token line))"
    and "\<forall>key r. dict_get res key = Some r \<longrightarrow>
           (\<exists>line \<in> L. name r = first_token line \<or>
              name r = replace_char CHR ''/'' CHR ''_'' (first_token line))"
  shows "\<forall>key r. dict_get res' key = Some r \<longrightarrow>
           (\<exists>line \<in> L. name r = first_token line \<or>
              name r = replace_char CHR ''/'' CHR ''_'' (first_token line))"
  using assms
proof (induction fl arbitrary: cur res)
  case Nil
  then show ?case by simp
next
  case (Cons line rest)
  from Cons.prems(1) obtain cur1 res1 where
    step: "rust_line line (cur, res) = Inr (cur1, res1)"
    and rest: "rust_lines rest (cur1, res1) = Inr (cur', res')"
    by (auto split: sum.splits)
  from Cons.prems(2) have line: "line \<in> L" and sub: "set rest \<subseteq> L" by simp_all
  note o = rust_line_origin [OF step]
  have c1: "\<forall>c. cur1 = Some c \<longrightarrow>
      (\<exists>line \<in> L. c = replace_char CHR ''/'' CHR ''_'' (first_token line))"
    using o Cons.prems(3) line by auto
  have r1: "\<forall>key r. dict_get res1 key = Some r \<longrightarrow>
      (\<exists>line \<in> L. name r = first_token line \<or>
         name r = replace_char CHR ''/'' CHR ''_'' (first_token line))"
  proof (intro allI impI)
    fix key r
    assume "dict_get res1 key = Some r"
    with o have "dict_get res key = Some r \<or> name r = first_token line \<or>
        name r = replace_char CHR ''/'' CHR ''_'' (first_token line) \<or> cur = Some (name r)"
      by blast
    with Cons.prems(3,4) line
    show "\<exists>line \<in> L. name r = first_token line \<or>
        name r = replace_char CHR ''/'' CHR ''_'' (first_token line)"
      by blast
  qed
  from Cons.IH [OF rest sub c1 r1] show ?case .
qed

text \<open>
  Claim C8, amended. The \<open>name\<close> of a record of the Go parser is \<^verbatim>\<open>Benchmark\<close> followed by
  the captured name, where the first token of the stripped line is that text followed
  by nothing or by a dash and digits: the suffix \<^verbatim>\<open>-N\<close> of the line is not part of it. The
  \<open>name\<close> of a record of the Rust parser is the first token of a stripped line of the
  file, either as it is (the one-line format) or with every slash replaced by an
  underscore (the pending name). Capitalisation is kept in both.
\<close>

theorem display_name_origin:
  "(parse_go_bench go_file = Inr results \<and> dict_get results key = Some r \<longrightarrow>
      (\<exists>line \<in> set go_file. \<exists>nm suf. name r = ''Benchmark'' @ nm \<and>
          first_token line = ''Benchmark'' @ nm @ suf \<and> (suf = [] \<or> dash_digits_suffix suf))) \<and>
   (parse_rust_bench rust_file = Inr results \<and> dict_get results key = Some r \<longrightarrow>
      (\<exists>line \<in> set rust_file. name r = first_token line \<or>
          name r = replace_char CHR ''/'' CHR ''_'' (first_token line)))"
proof (intro conjI impI)
  assume a: "parse_go_bench go_file = Inr results \<and> dict_get results key = Some r"
  then have "go_lines go_file [] = Inr results" by (simp add: parse_go_bench_def)
  from go_lines_origin [OF this] a
  show "\<exists>line \<in> set go_file. \<exists>nm suf. name r = ''Benchmark'' @ nm \<and>
          first_token line = ''Benchmark'' @ nm @ suf \<and> (suf = [] \<or> dash_digits_suffix suf)"
    by (auto simp: dict_get_def)
next
  assume a: "parse_rust_bench rust_file = Inr results \<and> dict_get results key = Some r"
  then obtain cur' where "rust_lines rust_file (None, []) = Inr (cur', results)"
    by (auto simp: parse_rust_bench_def split: sum.splits)
  from rust_lines_origin [OF this, of "set rust_file"] a
  show "\<exists>line \<in> set rust_file. name r = first_token line \<or>
          name r = replace_char CHR ''/'' CHR ''_'' (first_token line)"
    by (auto simp: dict_get_def)
qed

lemma go_scenario_parse:
  "parse_go_bench [''BenchmarkFoo-8    1000000    123.0 ns/op    16 B/op    1 allocs/op''] =
     Inr [(''foo'', \<lparr>name = ''BenchmarkFoo'', ns_per_op = 123, bytes_per_op = Some 16,
            allocs_per_op = Some 1, source = ''go''\<rparr>)]"
  by code_simp

lemma rust_pending_parse:
  "parse_rust_bench [''lipgloss/render'', ''time: [1 ns 2 ns 3 ns]''] =
     Inr [(''lipglossrender'', \<lparr>name = ''lipgloss_render'', ns_per_op = 2,
            bytes_per_op = None, allocs_per_op = None, source = ''rust''\<rparr>)]"
  by code_simp

lemma scenario_tokens:
  "first_token ''BenchmarkFoo-8    1000000    123.0 ns/op    16 B/op    1 allocs/op'' =
     ''BenchmarkFoo-8''"
  "first_token ''lipgloss/render'' = ''lipgloss/render''"
  "first_token ''time: [1 ns 2 ns 3 ns]'' = ''time:''"
  by code_simp+

text \<open>The Go line of the scenario, and a Rust name line followed by its interval.\<close>

theorem display_name_origin_witness:
  "parse_go_bench [''BenchmarkFoo-8    1000000    123.0 ns/op    16 B/op    1 allocs/op''] =
     Inr [(''foo'', \<lparr>name = ''BenchmarkFoo'', ns_per_op = 123, bytes_per_op = Some 16,
            allocs_per_op = Some 1, source = ''go''\<rparr>)] \<and>
   (\<exists>nm suf. ''BenchmarkFoo'' = ''Benchmark'' @ nm \<and>
      first_token ''BenchmarkFoo-8    1000000    123.0 ns/op    16 B/op    1 allocs/op'' =
        ''Benchmark'' @ nm @ suf \<and> (suf = [] \<or> dash_digits_suffix suf)) \<and>
   parse_rust_bench [''lipgloss/render'', ''time: [1 ns 2 ns 3 ns]''] =
     Inr [(''lipglossrender'', \<lparr>name = ''lipgloss_render'', ns_per_op = 2,
            bytes_per_op = None, allocs_per_op = None, source = ''rust''\<rparr>)] \<and>
   (\<exists>line \<in> set [''lipgloss/render'', ''time: [1 ns 2 ns 3 ns]''].
      ''lipgloss_render'' = first_token line \<or>
      ''lipgloss_render'' = replace_char CHR ''/'' CHR ''_'' (first_token line))"
proof -
  have go: "\<exists>nm suf. ''BenchmarkFoo'' = ''Benchmark'' @ nm \<and>
      first_token ''BenchmarkFoo-8    1000000    123.0 ns/op    16 B/op    1 allocs/op'' =
        ''Benchmark'' @ nm @ suf \<and> (suf = [] \<or> dash_digits_suffix suf)"
    using display_name_origin
      [of "[''BenchmarkFoo-8    1000000    123.0 ns/op    16 B/op    1 allocs/op'']"
          "[(''foo'', \<lparr>name = ''BenchmarkFoo'', ns_per_op = 123, bytes_per_op = Some 16,
              allocs_per_op = Some 1, source = ''go''\<rparr>)]" "''foo''"
          "\<lparr>name = ''BenchmarkFoo'', ns_per_op = 123, bytes_per_op = Some 16,
              allocs_per_op = Some 1, source = ''go''\<rparr>" "[]", THEN conjunct1]
      go_scenario_parse
    by (simp add: dict_get_def del: append_eq_Cons_conv Cons_eq_append_conv)
  have rust: "\<exists>line \<in> set [''lipgloss/render'', ''time: [1 ns 2 ns 3 ns]''].
      ''lipgloss_render'' = first_token line \<or>
      ''lipgloss_render'' = replace_char CHR ''/'' CHR ''_'' (first_token line)"
    using display_name_origin
      [of "[]" "[(''lipglossrender'', \<lparr>name = ''lipgloss_render'', ns_per_op = 2,
            bytes_per_op = None, allocs_per_op = None, source = ''rust''\<rparr>)]"
          "''lipglossrender''"
          "\<lparr>name = ''lipgloss_render'', ns_per_op = 2,
            bytes_per_op = None, allocs_per_op = None, source = ''rust''\<rparr>"
          "[''lipgloss/render'', ''time: [1 ns 2 ns 3 ns]'']", THEN conjunct2]
      rust_pending_parse
    by (simp add: dict_get_def)
  from go rust go_scenario_parse rust_pending_parse show ?thesis by (intro conjI)
qed

text \<open>
  Claim C8, as stated, fails for both parsers: the Go record of the line
  \<^verbatim>\<open>BenchmarkFoo-8 ...\<close> is named \<open>BenchmarkFoo\<close>, without the suffix of the line, and the
  Rust record of the name line \<^verbatim>\<open>lipgloss/render\<close> is named \<open>lipgloss_render\<close>, with another
  separator.
\<close>

theorem display_name_counterexample:
  "parse_go_bench [''BenchmarkFoo-8    1000000    123.0 ns/op    16 B/op    1 allocs/op''] =
     Inr [(''foo'', \<lparr>name = ''BenchmarkFoo'', ns_per_op = 123, bytes_per_op = Some 16,
            allocs_per_op = Some 1, source = ''go''\<rparr>)] \<and>
   first_token ''BenchmarkFoo-8    1000000    123.0 ns/op    16 B/op    1 allocs/op'' =
     ''BenchmarkFoo-8'' \<and>
   parse_rust_bench [''lipgloss/render'', ''time: [1 ns 2 ns 3 ns]''] =
     Inr [(''lipglossrender'', \<lparr>name = ''lipgloss_render'', ns_per_op = 2,
            bytes_per_op = None, allocs_per_op = None, source = ''rust''\<rparr>)] \<and>
   first_token ''lipgloss/render'' = ''lipgloss/render'' \<and>
   first_token ''time: [1 ns 2 ns 3 ns]'' = ''time:''"
  by (simp add: go_scenario_parse rust_pending_parse scenario_tokens)

section \<open>The pending name of the Rust parser\<close>

lemma replace_char_nonempty: "replace_char c d s = [] \<longleftrightarrow> s = []"
  by (simp add: replace_char_def)

lemma pending_cleared_by_interval:
  assumes "rust_line l (Some c, res) = Inr (None, res')"
  shows "matched (re_search time_pattern (py_strip l))"
proof (rule ccontr)
  assume no: "\<not> matched (re_search time_pattern (py_strip l))"
  from rust_line_Inr [OF assms] obtain cur1 res1 where
    ts: "time_step (py_strip l) (name_step (py_strip l) (Some c), res) = Inr (cur1, res1)"
    and ss: "simple_step (py_strip l) (cur1, res1) = Inr (None, res')"
    by blast
  from simple_step_Inr [OF ss] have "cur1 = None" by simp
  with time_step_Inr [OF ts] no have "name_step (py_strip l) (Some c) = None" by auto
  with name_step_cases [of "py_strip l" "Some c"] show False by auto
qed

text \<open>
  Claim C10, amended. Let a line match the simple pattern and hold no full interval, and
  let the next line match no name pattern and hold a full interval. After the first
  line the dictionary holds the record of the first value under the line's first
  token, and the pending name is that token with every slash replaced by an
  underscore; the second line stores a record of its median value under that pending
  name and clears it. A pending name is cleared by no line without a full interval.
\<close>

theorem shorthand_line_keeps_pending_name:
  assumes "matched (re_match simple_pattern (py_strip l1))"
    and "\<not> matched (re_search time_pattern (py_strip l1))"
    and "rust_line l1 (cur, results) = Inr (cur1, results1)"
    and "\<not> matched (re_match name_pattern (py_strip l2))"
    and "matched (re_search time_pattern (py_strip l2))"
    and "rust_line l2 (cur1, results1) = Inr (cur2, results2)"
  shows "cur1 = Some (replace_char CHR ''/'' CHR ''_'' (first_token l1)) \<and>
         (\<exists>m v u x. re_match simple_pattern (py_strip l1) = Some m \<and>
            group m 2 = Some v \<and> group m 3 = Some u \<and> py_float v = Inr x \<and>
            results1 = dict_set (normalize_name (first_token l1))
              \<lparr>name = first_token l1, ns_per_op = convert_to_ns x u, bytes_per_op = None,
               allocs_per_op = None, source = ''rust''\<rparr> results) \<and>
         cur2 = None \<and>
         (\<exists>m v u x. re_search time_pattern (py_strip l2) = Some m \<and>
            group m 3 = Some v \<and> group m 4 = Some u \<and> py_float v = Inr x \<and>
            results2 = dict_set (normalize_name (replace_char CHR ''/'' CHR ''_'' (first_token l1)))
              \<lparr>name = replace_char CHR ''/'' CHR ''_'' (first_token l1),
               ns_per_op = convert_to_ns x u, bytes_per_op = None,
               allocs_per_op = None, source = ''rust''\<rparr> results1) \<and>
         (\<forall>l c res res'. rust_line l (Some c, res) = Inr (None, res') \<longrightarrow>
            matched (re_search time_pattern (py_strip l)))"
proof -
  define tok where "tok = first_token l1"
  define stored where "stored = replace_char CHR ''/'' CHR ''_'' tok"
  from assms(1) obtain m1 where m1: "re_match simple_pattern (py_strip l1) = Some m1"
    by (cases "re_match simple_pattern (py_strip l1)") auto
  from simple_pattern_token [OF m1] have g1: "group m1 1 = Some tok" and tok: "tok \<noteq> []"
    and nm: "matched (re_match name_pattern (py_strip l1))"
    by (simp_all add: tok_def first_token_def)
  from name_step_matched [OF nm] have ns1: "name_step (py_strip l1) cur = Some stored"
    by (simp add: stored_def tok_def first_token_def)
  from rust_line_Inr [OF assms(3)] obtain c r where
    ts1: "time_step (py_strip l1) (name_step (py_strip l1) cur, results) = Inr (c, r)"
    and ss1: "simple_step (py_strip l1) (c, r) = Inr (cur1, results1)"
    by blast
  from time_step_Inr [OF ts1] assms(2) ns1 have cr: "c = Some stored" "r = results"
    by auto
  from simple_step_Inr [OF ss1] m1 cr
  have cur1: "cur1 = Some stored"
    and rr1: "rust_result (group m1 1) (group m1 2) (group m1 3) results = Inr results1"
    by auto
  from rust_result_Inr [OF rr1] g1 obtain v1 u1 x1 where
    first: "group m1 2 = Some v1" "group m1 3 = Some u1" "py_float v1 = Inr x1"
      "results1 = dict_set (normalize_name tok)
         \<lparr>name = tok, ns_per_op = convert_to_ns x1 u1, bytes_per_op = None,
          allocs_per_op = None, source = ''rust''\<rparr> results"
    by auto
  from name_step_unmatched [OF assms(4)] have ns2: "name_step (py_strip l2) cur1 = cur1" .
  from rust_line_Inr [OF assms(6)] ns2 obtain c2 r2 where
    ts2: "time_step (py_strip l2) (cur1, results1) = Inr (c2, r2)"
    and ss2: "simple_step (py_strip l2) (c2, r2) = Inr (cur2, results2)"
    by auto
  from tok have "truthy cur1" by (simp add: cur1 stored_def truthy_def replace_char_nonempty)
  with time_step_Inr [OF ts2] assms(5) obtain m2 where c2: "c2 = None"
    and m2: "re_search time_pattern (py_strip l2) = Some m2"
    and rr2: "rust_result cur1 (group m2 3) (group m2 4) results1 = Inr r2"
    by auto
  have "\<not> matched (re_match simple_pattern (py_strip l2))"
  proof
    assume "matched (re_match simple_pattern (py_strip l2))"
    then obtain m where "re_match simple_pattern (py_strip l2) = Some m"
      by (cases "re_match simple_pattern (py_strip l2)") auto
    from simple_pattern_token [OF this] assms(4) show False by simp
  qed
  with simple_step_Inr [OF ss2] c2 have fin: "cur2 = None" "results2 = r2"
    by (auto simp: matched_iff)
  from rust_result_Inr [OF rr2] cur1 obtain v2 u2 x2 where
    second: "group m2 3 = Some v2" "group m2 4 = Some u2" "py_float v2 = Inr x2"
      "r2 = dict_set (normalize_name stored)
         \<lparr>name = stored, ns_per_op = convert_to_ns x2 u2, bytes_per_op = None,
          allocs_per_op = None, source = ''rust''\<rparr> results1"
    by auto
  have A: "cur1 = Some (replace_char CHR ''/'' CHR ''_'' (first_token l1))"
    using cur1 by (simp add: stored_def tok_def)
  have B: "\<exists>m v u x. re_match simple_pattern (py_strip l1) = Some m \<and>
            group m 2 = Some v \<and> group m 3 = Some u \<and> py_float v = Inr x \<and>
            results1 = dict_set (normalize_name (first_token l1))
              \<lparr>name = first_token l1, ns_per_op = convert_to_ns x u, bytes_per_op = None,
               allocs_per_op = None, source = ''rust''\<rparr> results"
    using m1 first unfolding tok_def by blast
  have C: "\<exists>m v u x. re_search time_pattern (py_strip l2) = Some m \<and>
            group m 3 = Some v \<and> group m 4 = Some u \<and> py_float v = Inr x \<and>
            results2 = dict_set (normalize_name (replace_char CHR ''/'' CHR ''_'' (first_token l1)))
              \<lparr>name = replace_char CHR ''/'' CHR ''_'' (first_token l1),
               ns_per_op = convert_to_ns x u, bytes_per_op = None,
               allocs_per_op = None, source = ''rust''\<rparr> results1"
    using m2 second fin(2) unfolding stored_def tok_def by blast
  have D: "\<forall>l c res res'. rust_line l (Some c, res) = Inr (None, res') \<longrightarrow>
            matched (re_search time_pattern (py_strip l))"
    using pending_cleared_by_interval by blast
  from A B fin(1) C D show ?thesis by (intro conjI)
qed

text \<open>The lines \<^verbatim>\<open>foo time: [1.0 ns\<close> and \<^verbatim>\<open>time: [1 ns 2 ns 3 ns]\<close>.\<close>

lemma ex_l1: "matched (re_match simple_pattern (py_strip ''foo time: [1.0 ns''))" by code_simp
lemma ex_l1_no_interval: "\<not> matched (re_search time_pattern (py_strip ''foo time: [1.0 ns''))"
  by code_simp
lemma ex_l1_step: "rust_line ''foo time: [1.0 ns'' (None, []) =
    Inr (Some ''foo'', [(''foo'', \<lparr>name = ''foo'', ns_per_op = 1, bytes_per_op = None,
      allocs_per_op = None, source = ''rust''\<rparr>)])"
  by code_simp
lemma ex_l2_no_name: "\<not> matched (re_match name_pattern (py_strip ''time: [1 ns 2 ns 3 ns]''))"
  by code_simp
lemma ex_l2: "matched (re_search time_pattern (py_strip ''time: [1 ns 2 ns 3 ns]''))"
  by code_simp
lemma ex_l2_step: "rust_line ''time: [1 ns 2 ns 3 ns]''
     (Some ''foo'', [(''foo'', \<lparr>name = ''foo'', ns_per_op = 1, bytes_per_op = None,
      allocs_per_op = None, source = ''rust''\<rparr>)]) =
    Inr (None, [(''foo'', \<lparr>name = ''foo'', ns_per_op = 2, bytes_per_op = None,
      allocs_per_op = None, source = ''rust''\<rparr>)])"
  by code_simp
lemma ex_l1_token: "replace_char CHR ''/'' CHR ''_'' (first_token ''foo time: [1.0 ns'') = ''foo''"
  by code_simp

theorem shorthand_line_keeps_pending_name_witness:
  "matched (re_match simple_pattern (py_strip ''foo time: [1.0 ns'')) \<and>
   \<not> matched (re_search time_pattern (py_strip ''foo time: [1.0 ns'')) \<and>
   rust_line ''foo time: [1.0 ns'' (None, []) =
     Inr (Some ''foo'', [(''foo'', \<lparr>name = ''foo'', ns_per_op = 1, bytes_per_op = None,
       allocs_per_op = None, source = ''rust''\<rparr>)]) \<and>
   \<not> matched (re_match name_pattern (py_strip ''time: [1 ns 2 ns 3 ns]'')) \<and>
   matched (re_search time_pattern (py_strip ''time: [1 ns 2 ns 3 ns]'')) \<and>
   rust_line ''time: [1 ns 2 ns 3 ns]''
     (Some ''foo'', [(''foo'', \<lparr>name = ''foo'', ns_per_op = 1, bytes_per_op = None,
       allocs_per_op = None, source = ''rust''\<rparr>)]) =
     Inr (None, [(''foo'', \<lparr>name = ''foo'', ns_per_op = 2, bytes_per_op = None,
       allocs_per_op = None, source = ''rust''\<rparr>)]) \<and>
   Some ''foo'' = Some (replace_char CHR ''/'' CHR ''_'' (first_token ''foo time: [1.0 ns''))"
  using shorthand_line_keeps_pending_name [OF ex_l1 ex_l1_no_interval ex_l1_step ex_l2_no_name
      ex_l2 ex_l2_step]
    ex_l1 ex_l1_no_interval ex_l1_step ex_l2_no_name ex_l2 ex_l2_step
  by simp

text \<open>
  Claim C10, as stated, fails for a name with a slash: after \<^verbatim>\<open>bench/x time: [1.0 ns\<close> the
  pending name is \<open>bench_x\<close>, not the name \<open>bench/x\<close> of the line, and the interval line
  that follows gives a record named \<open>bench_x\<close> under the key \<open>x\<close>, while the record of
  the first line is under \<open>benchx\<close>.
\<close>

theorem shorthand_pending_name_counterexample:
  "rust_line ''bench/x time: [1.0 ns'' (None, []) =
     Inr (Some ''bench_x'', [(''benchx'', \<lparr>name = ''bench/x'', ns_per_op = 1,
       bytes_per_op = None, allocs_per_op = None, source = ''rust''\<rparr>)]) \<and>
   first_token ''bench/x time: [1.0 ns'' = ''bench/x'' \<and>
   parse_rust_bench [''bench/x time: [1.0 ns'', ''time: [1 ns 2 ns 3 ns]''] =
     Inr [(''benchx'', \<lparr>name = ''bench/x'', ns_per_op = 1,
            bytes_per_op = None, allocs_per_op = None, source = ''rust''\<rparr>),
          (''x'', \<lparr>name = ''bench_x'', ns_per_op = 2,
            bytes_per_op = None, allocs_per_op = None, source = ''rust''\<rparr>)]"
  by code_simp

end
